theory Spec2Isabelle
  imports Main "HOL-Library.Code_Target_Nat"
begin

section \<open>JavaScript values and objects\<close>

text \<open>
  The values that flow through \<^verbatim>\<open>Resolver.ts\<close>: primitives, and references to objects
  that live in a heap. Only the operations the resolver performs on a value are modelled:
  truthiness (\<^verbatim>\<open>!!x\<close>, \<^verbatim>\<open>x || y\<close>), property read (\<^verbatim>\<open>x['then']\<close>, \<^verbatim>\<open>value.default\<close>,
  \<^verbatim>\<open>error.pathname\<close>), property test (\<^verbatim>\<open>'default' in value\<close>), \<^verbatim>\<open>typeof\<close>,
  \<^verbatim>\<open>instanceof NotFoundError\<close>, the call of a \<^verbatim>\<open>then\<close> method and property assignment.
  Numbers are integers plus NaN, which is all that truthiness distinguishes.
\<close>

datatype jsval =
    VUndefined
  | VNull
  | VBool bool
  | VNum int
  | VNaN
  | VStr string
  | VRef nat

datatype jsclass = PlainObject | FunctionObject | ErrorObject | NotFoundError

record jsobj =
  cls :: jsclass
  props :: "string \<rightharpoonup> jsval"

text \<open>
  The heap is the list of the objects created so far: the address of an object is its
  position, and a new object goes at the end, so that its address is one that no object
  had before.
\<close>

type_synonym heap = "jsobj list"

definition obj_at :: "heap \<Rightarrow> nat \<Rightarrow> jsobj option" where
  "obj_at h a = (if a < length h then Some (h ! a) else None)"

fun truthy :: "jsval \<Rightarrow> bool" where
  "truthy VUndefined = False"
| "truthy VNull = False"
| "truthy (VBool b) = b"
| "truthy (VNum n) = (n \<noteq> 0)"
| "truthy VNaN = False"
| "truthy (VStr s) = (s \<noteq> [])"
| "truthy (VRef a) = True"

text \<open>
  \<^verbatim>\<open>x[name]\<close>: the properties of an object (its own and the inherited ones, flattened into
  one map). A primitive has none of the names the resolver reads.
\<close>

fun get_prop :: "heap \<Rightarrow> jsval \<Rightarrow> string \<Rightarrow> jsval" where
  "get_prop h (VRef a) name =
     (case obj_at h a of
        None \<Rightarrow> VUndefined
      | Some ob \<Rightarrow> (case props ob name of None \<Rightarrow> VUndefined | Some v \<Rightarrow> v))"
| "get_prop h x name = VUndefined"

text \<open>\<^verbatim>\<open>name in x\<close>, for an object \<open>x\<close>: the property exists, whatever its value.\<close>

fun has_prop :: "heap \<Rightarrow> jsval \<Rightarrow> string \<Rightarrow> bool" where
  "has_prop h (VRef a) name =
     (case obj_at h a of None \<Rightarrow> False | Some ob \<Rightarrow> props ob name \<noteq> None)"
| "has_prop h x name = False"

text \<open>\<^verbatim>\<open>typeof x === 'object'\<close>: \<^verbatim>\<open>null\<close> and every object that is not a function.\<close>

fun typeof_object :: "heap \<Rightarrow> jsval \<Rightarrow> bool" where
  "typeof_object h VNull = True"
| "typeof_object h (VRef a) =
     (case obj_at h a of None \<Rightarrow> False | Some ob \<Rightarrow> cls ob \<noteq> FunctionObject)"
| "typeof_object h x = False"

text \<open>\<^verbatim>\<open>typeof x === 'function'\<close>: what a call \<^verbatim>\<open>x(...)\<close> needs.\<close>

fun callable :: "heap \<Rightarrow> jsval \<Rightarrow> bool" where
  "callable h (VRef a) =
     (case obj_at h a of None \<Rightarrow> False | Some ob \<Rightarrow> cls ob = FunctionObject)"
| "callable h x = False"

fun instanceof_NotFoundError :: "heap \<Rightarrow> jsval \<Rightarrow> bool" where
  "instanceof_NotFoundError h (VRef a) =
     (case obj_at h a of None \<Rightarrow> False | Some ob \<Rightarrow> cls ob = NotFoundError)"
| "instanceof_NotFoundError h x = False"

text \<open>\<^verbatim>\<open>x.name = v\<close> on an object: the object is changed in place, at its address.\<close>

fun set_prop :: "heap \<Rightarrow> jsval \<Rightarrow> string \<Rightarrow> jsval \<Rightarrow> heap" where
  "set_prop h (VRef a) name v =
     (case obj_at h a of
        None \<Rightarrow> h
      | Some ob \<Rightarrow> h[a := ob\<lparr>props := (props ob)(name \<mapsto> v)\<rparr>])"
| "set_prop h x name v = h"

section \<open>Status and its combination\<close>

datatype Status = Ready | Busy | Error

fun reduceStatuses :: "Status \<Rightarrow> Status \<Rightarrow> Status" where
  "reduceStatuses x y =
     (if x = Error \<or> y = Error then Error
      else if x = Busy \<or> y = Busy then Busy
      else Ready)"

section \<open>Promise shape and default unwrapping\<close>

text \<open>\<^verbatim>\<open>isPromiseLike(x) = !!x && !!x['then']\<close>\<close>

definition isPromiseLike :: "heap \<Rightarrow> jsval \<Rightarrow> bool" where
  "isPromiseLike h x = (truthy x \<and> truthy (get_prop h x ''then''))"

text \<open>\<^verbatim>\<open>hasDefault(value) = value && typeof value === 'object' && 'default' in value\<close>\<close>

definition hasDefault :: "heap \<Rightarrow> jsval \<Rightarrow> bool" where
  "hasDefault h v = (truthy v \<and> typeof_object h v \<and> has_prop h v ''default'')"

definition extractDefault :: "heap \<Rightarrow> jsval \<Rightarrow> jsval" where
  "extractDefault h v = (if hasDefault h v then get_prop h v ''default'' else v)"

section \<open>The resolver's data\<close>

text \<open>
  A resolvable and a listener are functions, used as map keys by identity: each is
  represented by the number that identifies it. What a function does when it is called is
  given by the \<open>world\<close> below. An environment is an object used as a key by identity
  (\<open>env_ref\<close>) of which the resolver reads two fields.
\<close>

type_synonym resolvable = nat
type_synonym listener = nat

record Env =
  env_ref :: nat
  pathname :: string
  unmatchedPathnamePart :: string

text \<open>
  The promises that a Resolution carries: \<^verbatim>\<open>Promise.resolve(v)\<close> (with
  \<^verbatim>\<open>Promise.resolve()\<close> as \<open>PromiseResolve VUndefined\<close>), and the value that the call
  \<^verbatim>\<open>maybeValue.then(extractDefault)\<close> returned, whatever it is.
\<close>

datatype promise = PromiseResolve jsval | Thenable jsval

text \<open>The optional fields \<^verbatim>\<open>error\<close> and \<^verbatim>\<open>value\<close> are \<open>None\<close> when absent.\<close>

record Resolution =
  id' :: nat
  status :: Status
  promise :: promise
  error :: "jsval option"
  value' :: "jsval option"

text \<open>
  What the callbacks of \<^verbatim>\<open>listenForChanges\<close> close over: its five parameters. The table
  \<^verbatim>\<open>matcherResults\<close> is held by reference, so it is an address into the store of tables.
\<close>

record continuation =
  c_promise :: promise
  c_table :: nat
  c_resolvable :: resolvable
  c_id :: nat
  c_fullPathname :: string

datatype reg_op = Listen listener "nat list" | Unlisten listener

datatype 'a call_result = Returns 'a | Throws jsval

datatype settlement = Fulfilled jsval | Rejected jsval

text \<open>
  The three calls of a \<^verbatim>\<open>then\<close> method that the resolver makes, by what it passes:
  \<^verbatim>\<open>extractDefault\<close> (line 85), the first two callbacks (line 104), the third (line 136).
\<close>

datatype then_args = ThenExtractDefault | ThenCallbacks | ThenNotify

text \<open>
  The code around the resolver.
  \<^item> \<open>invoke r env dataPromise\<close> is the outcome of the call
    \<^verbatim>\<open>resolvable(env, dataResolution.promise)\<close>: a returned value or a thrown one. A
    resolvable is a pure computation: its outcome depends on its arguments only, the
    objects it returns are in the heap already, and it does not call the resolver.
  \<^item> \<open>call_then x args\<close> is the outcome of calling the \<^verbatim>\<open>then\<close> method of \<open>x\<close>, when it has
    one: what the method returns, which may be anything, or what it throws. The method is
    taken not to run the callbacks it is given before it returns.
  \<^item> \<open>follow x\<close> is how a promise that has been resolved with the thenable \<open>x\<close> ends:
    fulfilled or rejected as \<open>x\<close> is, or \<open>None\<close> when \<open>x\<close> never settles.
  \<^item> \<open>joinPaths\<close> is imported from \<^verbatim>\<open>URLTools\<close>, which is not part of the file: it is a
    parameter, and it may throw.
  \<^item> \<open>listener_body l\<close> is what the listener \<open>l\<close> does to the registry when it is called,
    and \<open>listener_throws l\<close> says whether the call ends with an exception.
\<close>

record world =
  invoke :: "resolvable \<Rightarrow> Env \<Rightarrow> promise \<Rightarrow> jsval call_result"
  call_then :: "jsval \<Rightarrow> then_args \<Rightarrow> jsval call_result"
  follow :: "jsval \<Rightarrow> settlement option"
  joinPaths :: "string \<Rightarrow> string \<Rightarrow> string call_result"
  listener_body :: "listener \<Rightarrow> reg_op list"
  listener_throws :: "listener \<Rightarrow> bool"

text \<open>
  The state: the three fields of the class (\<open>nextId\<close>, \<open>results\<close>, \<open>listenerIds\<close>), the
  store of the inner tables that \<open>results\<close> and the continuations point into, the heap of
  objects, the callbacks registered on promises (\<open>pending\<close>: the first two callbacks of an
  attempt; \<open>notifying\<close>: the ids whose third callback is registered), and two logs, of the
  resolvables invoked (with the environment) and of the listeners called, in order.
  \<open>listenerIds\<close> is a \<^verbatim>\<open>Map\<close>, iterated in insertion order: an association list.
\<close>

record state =
  nextId :: nat
  results :: "nat \<rightharpoonup> nat"
  listenerIds :: "(listener \<times> nat list) list"
  tables :: "nat \<Rightarrow> (resolvable \<rightharpoonup> Resolution)"
  nextTable :: nat
  heap :: heap
  pending :: "continuation list"
  notifying :: "nat list"
  invoked :: "(nat \<times> resolvable) list"
  notified :: "listener list"

datatype thrown = Thrown jsval | TypeError

datatype 'a completion = Return 'a | Throw thrown

section \<open>The resolver's operations\<close>

text \<open>The constructor, in a program whose heap is \<open>h\<close>.\<close>

definition new_Resolver :: "heap \<Rightarrow> state" where
  "new_Resolver h =
     \<lparr>nextId = 1, results = Map.empty, listenerIds = [],
      tables = (\<lambda>t. Map.empty), nextTable = 0, heap = h,
      pending = [], notifying = [], invoked = [], notified = []\<rparr>"

text \<open>
  \<^verbatim>\<open>this.nextId++\<close> on a JavaScript number: adding one is exact below \<open>2^53\<close>, and at
  \<open>2^53\<close> it gives \<open>2^53\<close> again.
\<close>

definition next_number :: "nat \<Rightarrow> nat" where
  "next_number n = (if n < 2 ^ 53 then Suc n else n)"

text \<open>\<^verbatim>\<open>Map.prototype.set\<close>: an existing key keeps its place, a new key goes last.\<close>

fun map_set :: "('k \<times> 'v) list \<Rightarrow> 'k \<Rightarrow> 'v \<Rightarrow> ('k \<times> 'v) list" where
  "map_set [] k v = [(k, v)]"
| "map_set ((k', v') # xs) k v =
     (if k' = k then (k, v) # xs else (k', v') # map_set xs k v)"

fun map_delete :: "('k \<times> 'v) list \<Rightarrow> 'k \<Rightarrow> ('k \<times> 'v) list" where
  "map_delete [] k = []"
| "map_delete ((k', v') # xs) k =
     (if k' = k then xs else (k', v') # map_delete xs k)"

definition listen :: "state \<Rightarrow> listener \<Rightarrow> nat list \<Rightarrow> state" where
  "listen st l resolutionIds = st\<lparr>listenerIds := map_set (listenerIds st) l resolutionIds\<rparr>"

definition unlisten :: "state \<Rightarrow> listener \<Rightarrow> state" where
  "unlisten st l = st\<lparr>listenerIds := map_delete (listenerIds st) l\<rparr>"

text \<open>
  \<^verbatim>\<open>x.then(...)\<close>: a \<^verbatim>\<open>TypeError\<close> when \<open>x\<close> is \<^verbatim>\<open>null\<close> or \<^verbatim>\<open>undefined\<close> or its \<^verbatim>\<open>then\<close> is
  not a function; otherwise what the method returns or throws.
\<close>

definition then_method :: "world \<Rightarrow> heap \<Rightarrow> jsval \<Rightarrow> then_args \<Rightarrow> jsval completion" where
  "then_method w h x args =
     (if \<not> callable h (get_prop h x ''then'') then Throw TypeError
      else (case call_then w x args of
              Throws e \<Rightarrow> Throw (Thrown e)
            | Returns y \<Rightarrow> Return y))"

text \<open>
  \<^verbatim>\<open>listenForChanges\<close>: \<^verbatim>\<open>promise.then(a, b)\<close> registers the first two callbacks (they
  are \<open>onFulfilled\<close> and \<open>onRejected\<close> below), and \<^verbatim>\<open>.then(c)\<close> on what that call returned
  registers the third (\<open>onSettled\<close>). Either call may throw, and nothing catches it.
\<close>

definition listenForChanges ::
  "world \<Rightarrow> state \<Rightarrow> jsval \<Rightarrow> nat \<Rightarrow> resolvable \<Rightarrow> nat \<Rightarrow> string \<Rightarrow> unit completion \<times> state" where
  "listenForChanges w st p matcherResults r i fullPathname =
     (case then_method w (heap st) p ThenCallbacks of
        Throw x \<Rightarrow> (Throw x, st)
      | Return q \<Rightarrow>
          (let st1 = st\<lparr>pending := pending st @
                        [\<lparr>c_promise = Thenable p, c_table = matcherResults, c_resolvable = r,
                          c_id = i, c_fullPathname = fullPathname\<rparr>]\<rparr>
           in (case then_method w (heap st1) q ThenNotify of
                 Throw x \<Rightarrow> (Throw x, st1)
               | Return z \<Rightarrow> (Return (), st1\<lparr>notifying := notifying st1 @ [i]\<rparr>))))"

text \<open>Lines 58 to 62: the table of the environment, created when there is none.\<close>

definition get_table :: "state \<Rightarrow> Env \<Rightarrow> nat \<times> state" where
  "get_table st env =
     (case results st (env_ref env) of
        Some t \<Rightarrow> (t, st)
      | None \<Rightarrow>
          (nextTable st,
           st\<lparr>results := (results st)(env_ref env \<mapsto> nextTable st),
              tables := (tables st)(nextTable st := Map.empty),
              nextTable := Suc (nextTable st)\<rparr>))"

definition table_set :: "state \<Rightarrow> nat \<Rightarrow> resolvable \<Rightarrow> Resolution \<Rightarrow> state" where
  "table_set st t r res = st\<lparr>tables := (tables st)(t := (tables st t)(r \<mapsto> res))\<rparr>"

text \<open>
  Lines 69 to 71: the promise handed to the resolvable, that of the data resolvable's
  Resolution when one is given and cached, \<^verbatim>\<open>Promise.resolve()\<close> otherwise.
\<close>

definition data_promise :: "state \<Rightarrow> nat \<Rightarrow> resolvable option \<Rightarrow> promise" where
  "data_promise st t dataResolvable =
     (case dataResolvable of
        None \<Rightarrow> PromiseResolve VUndefined
      | Some d \<Rightarrow>
          (case tables st t d of
             Some dataResolution \<Rightarrow> promise dataResolution
           | None \<Rightarrow> PromiseResolve VUndefined))"

text \<open>
  \<^verbatim>\<open>resolve\<close>, in two parts: the lookup (lines 58 to 67), and what follows when the
  table holds nothing for the resolvable (lines 69 to 93, \<open>resolve_miss\<close>).
  Nothing in it is guarded. What the resolvable throws leaves \<^verbatim>\<open>resolve\<close>; so does what
  \<^verbatim>\<open>maybeValue.then(extractDefault)\<close> throws (a \<^verbatim>\<open>TypeError\<close> when the value is
  promise-shaped by the test of \<open>isPromiseLike\<close> and its \<^verbatim>\<open>then\<close> is not a function); so
  does what \<^verbatim>\<open>joinPaths\<close> throws, and what \<^verbatim>\<open>listenForChanges\<close> throws, both after the
  \<open>Busy\<close> record has been stored. The state that a throw leaves behind is returned with
  it.
\<close>

definition resolve_miss ::
  "world \<Rightarrow> state \<Rightarrow> Env \<Rightarrow> nat \<Rightarrow> resolvable \<Rightarrow> resolvable option
     \<Rightarrow> Resolution completion \<times> state" where
  "resolve_miss w st env t r dataResolvable =
     (let dataPromise = data_promise st t dataResolvable;
          i = nextId st;
          st1 = st\<lparr>nextId := next_number i, invoked := invoked st @ [(env_ref env, r)]\<rparr>
      in (case invoke w r env dataPromise of
            Throws e \<Rightarrow> (Throw (Thrown e), st1)
          | Returns maybeValue \<Rightarrow>
              (if \<not> isPromiseLike (heap st1) maybeValue then
                 (let result = \<lparr>id' = i, status = Ready, promise = PromiseResolve maybeValue,
                                error = None, value' = Some maybeValue\<rparr>
                  in (Return result, table_set st1 t r result))
               else
                 (case then_method w (heap st1) maybeValue ThenExtractDefault of
                    Throw x \<Rightarrow> (Throw x, st1)
                  | Return p \<Rightarrow>
                      (let result = \<lparr>id' = i, status = Busy, promise = Thenable p,
                                     error = None, value' = None\<rparr>;
                           st2 = table_set st1 t r result
                       in (case joinPaths w (pathname env) (unmatchedPathnamePart env) of
                             Throws e \<Rightarrow> (Throw (Thrown e), st2)
                           | Returns fullPathname \<Rightarrow>
                               (case listenForChanges w st2 p t r i fullPathname of
                                  (Throw x, st3) \<Rightarrow> (Throw x, st3)
                                | (Return u, st3) \<Rightarrow> (Return result, st3))))))))"

definition resolve ::
  "world \<Rightarrow> state \<Rightarrow> Env \<Rightarrow> resolvable \<Rightarrow> resolvable option
     \<Rightarrow> Resolution completion \<times> state" where
  "resolve w st0 env r dataResolvable =
     (let (t, st) = get_table st0 env in
      case tables st t r of
        Some currentResult \<Rightarrow> (Return currentResult, st)
      | None \<Rightarrow> resolve_miss w st env t r dataResolvable)"

text \<open>
  How the promise \<^verbatim>\<open>maybeValue.then(extractDefault)\<close> settles when \<^verbatim>\<open>maybeValue\<close> settles
  with \<open>s\<close>, for a \<^verbatim>\<open>then\<close> that follows Promises/A+, as the one of the native \<^verbatim>\<open>Promise\<close>
  does: a rejection is passed on; on fulfilment the promise is resolved with what
  \<open>extractDefault\<close> returns, which means that it is fulfilled with that value, unless the
  value is itself a thenable (it has a \<^verbatim>\<open>then\<close> that is a function): then the promise
  follows it.
\<close>

definition thenExtractDefault :: "world \<Rightarrow> heap \<Rightarrow> settlement \<Rightarrow> settlement option" where
  "thenExtractDefault w h s =
     (case s of
        Rejected e \<Rightarrow> Some (Rejected e)
      | Fulfilled v \<Rightarrow>
          (if callable h (get_prop h (extractDefault h v) ''then'')
           then follow w (extractDefault h v)
           else Some (Fulfilled (extractDefault h v))))"

text \<open>
  The first callback (lines 105 to 116). Its result \<^verbatim>\<open>true\<close> or \<^verbatim>\<open>undefined\<close> is the
  boolean \<open>didUpdate\<close>.
\<close>

definition onFulfilled :: "state \<Rightarrow> continuation \<Rightarrow> jsval \<Rightarrow> bool \<times> state" where
  "onFulfilled st c v =
     (case tables st (c_table c) (c_resolvable c) of
        None \<Rightarrow> (False, st)
      | Some currentResult \<Rightarrow>
          if id' currentResult = c_id c then
            (True,
             table_set st (c_table c) (c_resolvable c)
               \<lparr>id' = id' currentResult, status = Ready, promise = c_promise c,
                error = None, value' = Some v\<rparr>)
          else (False, st))"

text \<open>Lines 120 to 122: the annotation of a not-found error.\<close>

definition annotate :: "heap \<Rightarrow> jsval \<Rightarrow> string \<Rightarrow> heap" where
  "annotate h e fullPathname =
     (if instanceof_NotFoundError h e \<and> \<not> truthy (get_prop h e ''pathname'')
      then set_prop h e ''pathname'' (VStr fullPathname)
      else h)"

text \<open>\<^verbatim>\<open>error || new Error()\<close>: the new object goes at the end of the heap.\<close>

definition error_or_new :: "state \<Rightarrow> jsval \<Rightarrow> jsval \<times> state" where
  "error_or_new st e =
     (if truthy e then (e, st)
      else (VRef (length (heap st)),
            st\<lparr>heap := heap st @ [\<lparr>cls = ErrorObject, props = Map.empty\<rparr>]\<rparr>))"

text \<open>The second callback (lines 117 to 134).\<close>

definition onRejected :: "state \<Rightarrow> continuation \<Rightarrow> jsval \<Rightarrow> bool \<times> state" where
  "onRejected st c e =
     (let currentResult = tables st (c_table c) (c_resolvable c);
          st1 = st\<lparr>heap := annotate (heap st) e (c_fullPathname c)\<rparr>
      in case currentResult of
           None \<Rightarrow> (False, st1)
         | Some cur \<Rightarrow>
             if id' cur = c_id c then
               (let (e', st2) = error_or_new st1 e
                in (True,
                    table_set st2 (c_table c) (c_resolvable c)
                      \<lparr>id' = id' cur, status = Error, promise = c_promise c,
                       error = Some e', value' = None\<rparr>))
             else (False, st1))"

text \<open>
  The third callback (lines 136 to 148): the loop over \<^verbatim>\<open>Array.from(this.listenerIds.entries())\<close>.
  The list is taken once; what a called listener does to the registry changes the state,
  not the list being walked. The call \<^verbatim>\<open>listener()\<close> is not guarded: a listener that
  throws ends the loop (the exception rejects the promise of the third callback, which
  nobody reads).
\<close>

fun apply_reg_op :: "state \<Rightarrow> reg_op \<Rightarrow> state" where
  "apply_reg_op st (Listen l ids) = listen st l ids"
| "apply_reg_op st (Unlisten l) = unlisten st l"

definition call_listener :: "world \<Rightarrow> state \<Rightarrow> listener \<Rightarrow> bool \<times> state" where
  "call_listener w st l =
     (listener_throws w l,
      foldl apply_reg_op (st\<lparr>notified := notified st @ [l]\<rparr>) (listener_body w l))"

fun notify_loop :: "world \<Rightarrow> (listener \<times> nat list) list \<Rightarrow> nat \<Rightarrow> state \<Rightarrow> state" where
  "notify_loop w [] i st = st"
| "notify_loop w ((l, ids) # rest) i st =
     (if i \<in> set ids then
        (if fst (call_listener w st l) then snd (call_listener w st l)
         else notify_loop w rest i (snd (call_listener w st l)))
      else notify_loop w rest i st)"

definition onSettled :: "world \<Rightarrow> state \<Rightarrow> nat \<Rightarrow> bool \<Rightarrow> state" where
  "onSettled w st i didUpdate =
     (if didUpdate then notify_loop w (listenerIds st) i st else st)"

text \<open>
  A completion: the promise of the attempt settles with \<open>s\<close>, the first or the second
  callback runs, then the third with the result.
\<close>

definition complete :: "world \<Rightarrow> state \<Rightarrow> continuation \<Rightarrow> settlement \<Rightarrow> state" where
  "complete w st c s =
     (let (didUpdate, st') =
            (case s of Fulfilled v \<Rightarrow> onFulfilled st c v | Rejected e \<Rightarrow> onRejected st c e)
      in onSettled w st' (c_id c) didUpdate)"

text \<open>
  The whole chain: the value that the resolvable returned settles with \<open>s\<close>, the promise
  of the attempt settles as \<open>thenExtractDefault\<close> says (or stays pending), and the
  completion runs.
\<close>

definition settle :: "world \<Rightarrow> state \<Rightarrow> continuation \<Rightarrow> settlement \<Rightarrow> state" where
  "settle w st c s =
     (case thenExtractDefault w (heap st) s of
        None \<Rightarrow> st
      | Some s' \<Rightarrow> complete w st c s')"

section \<open>Runs of the resolver\<close>

text \<open>
  What can happen to a resolver, one step at a time: a call of \<^verbatim>\<open>resolve\<close> (whether it
  returns or throws, the state it leaves is kept), the first or second callback of some
  continuation, the third callback, \<^verbatim>\<open>listen\<close> and \<^verbatim>\<open>unlisten\<close>. Callbacks are taken with
  any continuation and any result, which covers every order in which promises settle.
\<close>

datatype op =
    OpResolve Env resolvable "resolvable option"
  | OpSettle continuation settlement
  | OpNotify nat bool
  | OpListen listener "nat list"
  | OpUnlisten listener

fun exec :: "world \<Rightarrow> state \<Rightarrow> op \<Rightarrow> state" where
  "exec w st (OpResolve env r d) = snd (resolve w st env r d)"
| "exec w st (OpSettle c (Fulfilled v)) = snd (onFulfilled st c v)"
| "exec w st (OpSettle c (Rejected e)) = snd (onRejected st c e)"
| "exec w st (OpNotify i b) = onSettled w st i b"
| "exec w st (OpListen l ids) = listen st l ids"
| "exec w st (OpUnlisten l) = unlisten st l"

definition run :: "world \<Rightarrow> state \<Rightarrow> op list \<Rightarrow> state" where
  "run w st ops = foldl (exec w) st ops"


text \<open>The keys of the registry are distinct, as those of a \<^verbatim>\<open>Map\<close> are.\<close>

definition registry_ok :: "state \<Rightarrow> bool" where
  "registry_ok st = distinct (map fst (listenerIds st))"

text \<open>
  The listeners of the registry \<open>reg\<close> whose list contains the id \<open>i\<close>, in order; and,
  of a list of listeners called in turn, those that are reached: all up to and including
  the first that throws.
\<close>

definition subscribers :: "(listener \<times> nat list) list \<Rightarrow> nat \<Rightarrow> listener list" where
  "subscribers reg i = map fst (filter (\<lambda>(l, ids). i \<in> set ids) reg)"

fun reached :: "world \<Rightarrow> listener list \<Rightarrow> listener list" where
  "reached w [] = []"
| "reached w (l # ls) = l # (if listener_throws w l then [] else reached w ls)"

text \<open>
  What the cache holds for a resolvable in an environment, and the promise that
  \<^verbatim>\<open>resolve\<close> hands to the resolvable, both read off the state before the call.
\<close>

definition lookup :: "state \<Rightarrow> Env \<Rightarrow> resolvable \<Rightarrow> Resolution option" where
  "lookup st env r =
     (case results st (env_ref env) of None \<Rightarrow> None | Some t \<Rightarrow> tables st t r)"

definition data_promise_of :: "state \<Rightarrow> Env \<Rightarrow> resolvable option \<Rightarrow> promise" where
  "data_promise_of st env dataResolvable =
     (case dataResolvable of
        None \<Rightarrow> PromiseResolve VUndefined
      | Some d \<Rightarrow>
          (case lookup st env d of
             Some dataResolution \<Rightarrow> promise dataResolution
           | None \<Rightarrow> PromiseResolve VUndefined))"

text \<open>
  The asynchronous branch of \<^verbatim>\<open>resolve\<close>, read off the state before the call: the \<open>Busy\<close>
  record that it stores and returns, and the continuation that it registers, for the
  promise \<open>p\<close> and the full path \<open>path\<close>.
\<close>

definition busy :: "state \<Rightarrow> jsval \<Rightarrow> Resolution" where
  "busy st p =
     \<lparr>id' = nextId st, status = Busy, promise = Thenable p, error = None, value' = None\<rparr>"

definition attempt :: "state \<Rightarrow> Env \<Rightarrow> resolvable \<Rightarrow> jsval \<Rightarrow> string \<Rightarrow> continuation" where
  "attempt st env r p path =
     \<lparr>c_promise = Thenable p, c_table = fst (get_table st env), c_resolvable = r,
      c_id = nextId st, c_fullPathname = path\<rparr>"

text \<open>
  The resolvable is not cached, its invocation returns the promise-shaped \<open>v\<close>, and every
  call on the way returns: \<^verbatim>\<open>v.then(extractDefault)\<close> returns \<open>p\<close>, \<^verbatim>\<open>joinPaths\<close> returns
  \<open>path\<close>, \<^verbatim>\<open>p.then(a, b)\<close> returns \<open>q\<close> and \<^verbatim>\<open>q.then(c)\<close> returns.
\<close>

definition goes_async ::
  "world \<Rightarrow> state \<Rightarrow> Env \<Rightarrow> resolvable \<Rightarrow> resolvable option \<Rightarrow> jsval \<Rightarrow> jsval \<Rightarrow> string \<Rightarrow> bool" where
  "goes_async w st env r dr v p path =
     (lookup st env r = None \<and>
      invoke w r env (data_promise_of st env dr) = Returns v \<and>
      isPromiseLike (heap st) v \<and>
      then_method w (heap st) v ThenExtractDefault = Return p \<and>
      joinPaths w (pathname env) (unmatchedPathnamePart env) = Returns path \<and>
      (\<exists>q z. then_method w (heap st) p ThenCallbacks = Return q \<and>
             then_method w (heap st) q ThenNotify = Return z))"

text \<open>Every stored Resolution whose status is \<open>Error\<close> carries a truthy error.\<close>

definition errors_truthy :: "state \<Rightarrow> bool" where
  "errors_truthy st =
     (\<forall>t r res. tables st t r = Some res \<and> status res = Error
        \<longrightarrow> (\<exists>e. error res = Some e \<and> truthy e))"

text \<open>The staleness guard of both callbacks.\<close>

definition is_current :: "state \<Rightarrow> continuation \<Rightarrow> bool" where
  "is_current st c =
     (case tables st (c_table c) (c_resolvable c) of
        None \<Rightarrow> False
      | Some cur \<Rightarrow> id' cur = c_id c)"


section \<open>A small program\<close>

text \<open>
  A heap with, by address: a promise (0, its \<^verbatim>\<open>then\<close> the function at 1), a module-like
  wrapper \<^verbatim>\<open>{default: "x"}\<close> (2), a not-found error without a path (3), one with the
  path \<^verbatim>\<open>/old\<close> (4), an object whose \<^verbatim>\<open>then\<close> is the number 1 (5), the promises that
  the three calls of \<^verbatim>\<open>then\<close> return for the promise 0 (6, 7, 8), a thenable whose
  \<^verbatim>\<open>then\<close> returns \<^verbatim>\<open>undefined\<close> (9), a wrapper whose \<^verbatim>\<open>default\<close> is the promise 0 (10) and
  a not-found error whose path is the empty string (11).
\<close>

definition ex_heap :: heap where
  "ex_heap =
     [\<lparr>cls = PlainObject, props = [''then'' \<mapsto> VRef 1]\<rparr>,
      \<lparr>cls = FunctionObject, props = Map.empty\<rparr>,
      \<lparr>cls = PlainObject, props = [''default'' \<mapsto> VStr ''x'']\<rparr>,
      \<lparr>cls = NotFoundError, props = Map.empty\<rparr>,
      \<lparr>cls = NotFoundError, props = [''pathname'' \<mapsto> VStr ''/old'']\<rparr>,
      \<lparr>cls = PlainObject, props = [''then'' \<mapsto> VNum 1]\<rparr>,
      \<lparr>cls = PlainObject, props = [''then'' \<mapsto> VRef 1]\<rparr>,
      \<lparr>cls = PlainObject, props = [''then'' \<mapsto> VRef 1]\<rparr>,
      \<lparr>cls = PlainObject, props = [''then'' \<mapsto> VRef 1]\<rparr>,
      \<lparr>cls = PlainObject, props = [''then'' \<mapsto> VRef 1]\<rparr>,
      \<lparr>cls = PlainObject, props = [''default'' \<mapsto> VRef 0]\<rparr>,
      \<lparr>cls = NotFoundError, props = [''pathname'' \<mapsto> VStr '''']\<rparr>]"

text \<open>
  Resolvable 0 returns 42, resolvable 1 returns the promise 0, resolvable 2 throws,
  resolvable 3 returns the object with the numeric \<^verbatim>\<open>then\<close>, the others return the
  thenable 9. The promise 0 is fulfilled with 5. Listener 0 unregisters listener 1 when
  called; the others do nothing. No listener throws, but in \<open>ex_world_throwing\<close>
  listener 0 does.
\<close>

definition ex_world :: world where
  "ex_world =
     \<lparr>invoke = (\<lambda>r env p.
         if r = 0 then Returns (VNum 42)
         else if r = 1 then Returns (VRef 0)
         else if r = 2 then Throws (VStr ''boom'')
         else if r = 3 then Returns (VRef 5)
         else Returns (VRef 9)),
      call_then = (\<lambda>x args.
         if x = VRef 0 then Returns (VRef 6)
         else if x = VRef 6 then Returns (VRef 7)
         else if x = VRef 7 then Returns (VRef 8)
         else Returns VUndefined),
      follow = (\<lambda>x. if x = VRef 0 then Some (Fulfilled (VNum 5)) else None),
      joinPaths = (\<lambda>a b. Returns (a @ ''/'' @ b)),
      listener_body = (\<lambda>l. if l = 0 then [Unlisten 1] else []),
      listener_throws = (\<lambda>l. False)\<rparr>"

definition ex_world_throwing :: world where
  "ex_world_throwing = ex_world\<lparr>listener_throws := (\<lambda>l. l = 0)\<rparr>"

definition ex_env :: Env where
  "ex_env = \<lparr>env_ref = 0, pathname = ''/a'', unmatchedPathnamePart = ''b''\<rparr>"

text \<open>
  The state after resolving the resolvables 0 and 1 in \<open>ex_env\<close> and registering three
  listeners: 0 and 1 for the id 2, listener 2 for the id 1.
\<close>

definition ex_state :: state where
  "ex_state =
     run ex_world (new_Resolver ex_heap)
       [OpResolve ex_env 0 None, OpResolve ex_env 1 None,
        OpListen 0 [2], OpListen 1 [2], OpListen 2 [1]]"

text \<open>
  The continuation of resolvable 1's attempt, and a continuation for the same resolvable
  whose id is not the one of the entry, as after the entry has been replaced.
\<close>

definition ex_cont :: continuation where
  "ex_cont =
     \<lparr>c_promise = Thenable (VRef 6), c_table = 0, c_resolvable = 1, c_id = 2,
      c_fullPathname = ''/a/b''\<rparr>"

definition ex_stale :: continuation where
  "ex_stale = ex_cont\<lparr>c_id := 7\<rparr>"

section \<open>The heap\<close>

lemma obj_at_update:
  "obj_at (h[a := ob]) b = (if b = a \<and> a < length h then Some ob else obj_at h b)"
  by (simp add: obj_at_def)

lemma obj_at_append:
  "obj_at (h @ [ob]) b = (if b = length h then Some ob else obj_at h b)"
  by (auto simp: obj_at_def nth_append)

lemma obj_at_length: "obj_at h (length h) = None"
  by (simp add: obj_at_def)

lemma obj_at_SomeD: "obj_at h a = Some ob \<Longrightarrow> a < length h"
  by (simp add: obj_at_def split: if_splits)

lemma get_prop_append:
  "truthy (get_prop h x name) \<Longrightarrow> get_prop (h @ [ob]) x name = get_prop h x name"
  by (cases x) (auto simp: obj_at_append obj_at_length split: option.splits)

lemma callable_append: "callable h x \<Longrightarrow> callable (h @ [ob]) x"
  by (cases x) (auto simp: obj_at_append obj_at_length split: option.splits)

lemma obj_at_set:
  "obj_at h a = Some ob \<Longrightarrow>
   obj_at (h[a := ob']) b = (if b = a then Some ob' else obj_at h b)"
  by (auto simp: obj_at_def split: if_splits)

section \<open>What each operation leaves unchanged\<close>

lemma apply_reg_op_frame:
  "tables (apply_reg_op st x) = tables st"
  "results (apply_reg_op st x) = results st"
  "nextTable (apply_reg_op st x) = nextTable st"
  "nextId (apply_reg_op st x) = nextId st"
  "invoked (apply_reg_op st x) = invoked st"
  "notified (apply_reg_op st x) = notified st"
  "heap (apply_reg_op st x) = heap st"
  "pending (apply_reg_op st x) = pending st"
  "notifying (apply_reg_op st x) = notifying st"
  by (cases x; simp add: listen_def unlisten_def)+

lemma foldl_reg_ops_frame:
  "tables (foldl apply_reg_op st xs) = tables st"
  "results (foldl apply_reg_op st xs) = results st"
  "nextTable (foldl apply_reg_op st xs) = nextTable st"
  "nextId (foldl apply_reg_op st xs) = nextId st"
  "invoked (foldl apply_reg_op st xs) = invoked st"
  "notified (foldl apply_reg_op st xs) = notified st"
  "heap (foldl apply_reg_op st xs) = heap st"
  "pending (foldl apply_reg_op st xs) = pending st"
  "notifying (foldl apply_reg_op st xs) = notifying st"
  by (induction xs arbitrary: st; simp add: apply_reg_op_frame)+

lemma call_listener_frame:
  "tables (snd (call_listener w st l)) = tables st"
  "results (snd (call_listener w st l)) = results st"
  "nextTable (snd (call_listener w st l)) = nextTable st"
  "nextId (snd (call_listener w st l)) = nextId st"
  "invoked (snd (call_listener w st l)) = invoked st"
  "heap (snd (call_listener w st l)) = heap st"
  "pending (snd (call_listener w st l)) = pending st"
  "notifying (snd (call_listener w st l)) = notifying st"
  "notified (snd (call_listener w st l)) = notified st @ [l]"
  "fst (call_listener w st l) = listener_throws w l"
  by (simp_all add: call_listener_def foldl_reg_ops_frame)

lemma notify_loop_frame:
  "tables (notify_loop w reg i st) = tables st"
  "results (notify_loop w reg i st) = results st"
  "nextTable (notify_loop w reg i st) = nextTable st"
  "nextId (notify_loop w reg i st) = nextId st"
  "invoked (notify_loop w reg i st) = invoked st"
  "heap (notify_loop w reg i st) = heap st"
  "pending (notify_loop w reg i st) = pending st"
  "notifying (notify_loop w reg i st) = notifying st"
  by (induction w reg i st rule: notify_loop.induct; simp add: call_listener_frame)+

lemma notify_loop_notified:
  "notified (notify_loop w reg i st) = notified st @ reached w (subscribers reg i)"
  by (induction w reg i st rule: notify_loop.induct)
     (simp_all add: subscribers_def call_listener_frame)

lemma onSettled_frame:
  "tables (onSettled w st i b) = tables st"
  "results (onSettled w st i b) = results st"
  "nextTable (onSettled w st i b) = nextTable st"
  "nextId (onSettled w st i b) = nextId st"
  "invoked (onSettled w st i b) = invoked st"
  "heap (onSettled w st i b) = heap st"
  "pending (onSettled w st i b) = pending st"
  "notifying (onSettled w st i b) = notifying st"
  by (simp_all add: onSettled_def notify_loop_frame)

lemma onSettled_notified:
  "notified (onSettled w st i b) =
     notified st @ (if b then reached w (subscribers (listenerIds st) i) else [])"
  by (simp add: onSettled_def notify_loop_notified)

lemma reached_no_throw: "\<forall>l \<in> set ls. \<not> listener_throws w l \<Longrightarrow> reached w ls = ls"
  by (induction ls) simp_all

lemma reached_prefix: "\<exists>rest. ls = reached w ls @ rest"
  by (induction ls) auto

lemma reached_subset: "set (reached w ls) \<subseteq> set ls"
  by (induction ls) auto

lemma reached_distinct: "distinct ls \<Longrightarrow> distinct (reached w ls)"
  using reached_subset [of w] by (induction ls) auto

lemma onFulfilled_frame:
  "results (snd (onFulfilled st c v)) = results st"
  "nextTable (snd (onFulfilled st c v)) = nextTable st"
  "nextId (snd (onFulfilled st c v)) = nextId st"
  "invoked (snd (onFulfilled st c v)) = invoked st"
  "notified (snd (onFulfilled st c v)) = notified st"
  "listenerIds (snd (onFulfilled st c v)) = listenerIds st"
  "heap (snd (onFulfilled st c v)) = heap st"
  "pending (snd (onFulfilled st c v)) = pending st"
  "notifying (snd (onFulfilled st c v)) = notifying st"
  by (simp_all add: onFulfilled_def table_set_def split: option.splits)

lemma onRejected_frame:
  "results (snd (onRejected st c e)) = results st"
  "nextTable (snd (onRejected st c e)) = nextTable st"
  "nextId (snd (onRejected st c e)) = nextId st"
  "invoked (snd (onRejected st c e)) = invoked st"
  "notified (snd (onRejected st c e)) = notified st"
  "listenerIds (snd (onRejected st c e)) = listenerIds st"
  "pending (snd (onRejected st c e)) = pending st"
  "notifying (snd (onRejected st c e)) = notifying st"
  by (simp_all add: onRejected_def table_set_def error_or_new_def Let_def split: option.splits)

lemma listenForChanges_frame:
  "tables (snd (listenForChanges w st p t r i path)) = tables st"
  "results (snd (listenForChanges w st p t r i path)) = results st"
  "nextTable (snd (listenForChanges w st p t r i path)) = nextTable st"
  "nextId (snd (listenForChanges w st p t r i path)) = nextId st"
  "invoked (snd (listenForChanges w st p t r i path)) = invoked st"
  "notified (snd (listenForChanges w st p t r i path)) = notified st"
  "listenerIds (snd (listenForChanges w st p t r i path)) = listenerIds st"
  "heap (snd (listenForChanges w st p t r i path)) = heap st"
  by (simp_all add: listenForChanges_def Let_def split: completion.splits)

lemma listenForChanges_returns:
  assumes "then_method w (heap st) p ThenCallbacks = Return q"
    and "then_method w (heap st) q ThenNotify = Return z"
  shows "listenForChanges w st p t r i path =
     (Return (),
      st\<lparr>pending := pending st @
            [\<lparr>c_promise = Thenable p, c_table = t, c_resolvable = r, c_id = i,
              c_fullPathname = path\<rparr>],
         notifying := notifying st @ [i]\<rparr>)"
  using assms by (simp add: listenForChanges_def Let_def)



lemma listenForChanges_returns_iff:
  "(\<exists>u. fst (listenForChanges w st p t r i path) = Return u) \<longleftrightarrow>
   (\<exists>q z. then_method w (heap st) p ThenCallbacks = Return q \<and>
          then_method w (heap st) q ThenNotify = Return z)"
  by (auto simp: listenForChanges_def Let_def split: completion.splits)

section \<open>The branches of resolve\<close>

lemma resolve_unfold:
  "resolve w st0 env r dr =
     (case tables (snd (get_table st0 env)) (fst (get_table st0 env)) r of
        Some cur \<Rightarrow> (Return cur, snd (get_table st0 env))
      | None \<Rightarrow> resolve_miss w (snd (get_table st0 env)) env (fst (get_table st0 env)) r dr)"
  by (simp add: resolve_def split_beta)


lemma get_table_frame:
  "nextId (snd (get_table st env)) = nextId st"
  "listenerIds (snd (get_table st env)) = listenerIds st"
  "notified (snd (get_table st env)) = notified st"
  "invoked (snd (get_table st env)) = invoked st"
  "heap (snd (get_table st env)) = heap st"
  "pending (snd (get_table st env)) = pending st"
  "notifying (snd (get_table st env)) = notifying st"
  by (simp_all add: get_table_def split: option.splits)

lemma get_table_results:
  "results (snd (get_table st env)) (env_ref env) = Some (fst (get_table st env))"
  by (simp add: get_table_def split: option.splits)




lemma get_table_idem:
  "get_table (snd (get_table st env)) env = (fst (get_table st env), snd (get_table st env))"
  by (simp add: get_table_def split: option.splits)

lemma resolve_miss_throws:
  assumes "invoke w r env (data_promise st t dr) = Throws e"
  shows "resolve_miss w st env t r dr =
     (Throw (Thrown e),
      st\<lparr>nextId := next_number (nextId st), invoked := invoked st @ [(env_ref env, r)]\<rparr>)"
  using assms by (simp add: resolve_miss_def Let_def)

lemma resolve_miss_plain:
  assumes "invoke w r env (data_promise st t dr) = Returns v"
    and "\<not> isPromiseLike (heap st) v"
  shows "resolve_miss w st env t r dr =
     (Return \<lparr>id' = nextId st, status = Ready, promise = PromiseResolve v,
              error = None, value' = Some v\<rparr>,
      table_set (st\<lparr>nextId := next_number (nextId st),
                     invoked := invoked st @ [(env_ref env, r)]\<rparr>) t r
        \<lparr>id' = nextId st, status = Ready, promise = PromiseResolve v,
         error = None, value' = Some v\<rparr>)"
  using assms by (simp add: resolve_miss_def Let_def)

lemma resolve_miss_then_throws:
  assumes "invoke w r env (data_promise st t dr) = Returns v"
    and "isPromiseLike (heap st) v"
    and "then_method w (heap st) v ThenExtractDefault = Throw x"
  shows "resolve_miss w st env t r dr =
     (Throw x,
      st\<lparr>nextId := next_number (nextId st), invoked := invoked st @ [(env_ref env, r)]\<rparr>)"
  using assms by (simp add: resolve_miss_def Let_def)

lemma resolve_miss_join_throws:
  assumes "invoke w r env (data_promise st t dr) = Returns v"
    and "isPromiseLike (heap st) v"
    and "then_method w (heap st) v ThenExtractDefault = Return p"
    and "joinPaths w (pathname env) (unmatchedPathnamePart env) = Throws e"
  shows "resolve_miss w st env t r dr =
     (Throw (Thrown e),
      table_set (st\<lparr>nextId := next_number (nextId st),
                     invoked := invoked st @ [(env_ref env, r)]\<rparr>) t r (busy st p))"
  using assms by (simp add: resolve_miss_def Let_def busy_def)

lemma resolve_miss_listens:
  assumes "invoke w r env (data_promise st t dr) = Returns v"
    and "isPromiseLike (heap st) v"
    and "then_method w (heap st) v ThenExtractDefault = Return p"
    and "joinPaths w (pathname env) (unmatchedPathnamePart env) = Returns path"
  shows "resolve_miss w st env t r dr =
     (case fst (listenForChanges w
                  (table_set (st\<lparr>nextId := next_number (nextId st),
                                  invoked := invoked st @ [(env_ref env, r)]\<rparr>) t r (busy st p))
                  p t r (nextId st) path) of
        Throw x \<Rightarrow> Throw x
      | Return u \<Rightarrow> Return (busy st p),
      snd (listenForChanges w
             (table_set (st\<lparr>nextId := next_number (nextId st),
                             invoked := invoked st @ [(env_ref env, r)]\<rparr>) t r (busy st p))
             p t r (nextId st) path))"
  using assms
  by (simp add: resolve_miss_def Let_def busy_def split_beta split: completion.splits prod.splits)

text \<open>The five ways through \<open>resolve_miss\<close>, as a rule for case analysis.\<close>

lemma resolve_miss_cases:
  obtains
    (throws) e where
      "resolve_miss w st env t r dr =
         (Throw (Thrown e),
          st\<lparr>nextId := next_number (nextId st), invoked := invoked st @ [(env_ref env, r)]\<rparr>)"
  | (plain) res where "status res = Ready" "id' res = nextId st"
      "resolve_miss w st env t r dr =
         (Return res,
          table_set (st\<lparr>nextId := next_number (nextId st),
                         invoked := invoked st @ [(env_ref env, r)]\<rparr>) t r res)"
  | (then_throws) x where
      "resolve_miss w st env t r dr =
         (Throw x,
          st\<lparr>nextId := next_number (nextId st), invoked := invoked st @ [(env_ref env, r)]\<rparr>)"
  | (join_throws) e p where
      "resolve_miss w st env t r dr =
         (Throw (Thrown e),
          table_set (st\<lparr>nextId := next_number (nextId st),
                         invoked := invoked st @ [(env_ref env, r)]\<rparr>) t r (busy st p))"
  | (listens) p path where
      "resolve_miss w st env t r dr =
         (case fst (listenForChanges w
                  (table_set (st\<lparr>nextId := next_number (nextId st),
                                  invoked := invoked st @ [(env_ref env, r)]\<rparr>) t r (busy st p))
                  p t r (nextId st) path) of
            Throw x \<Rightarrow> Throw x
          | Return u \<Rightarrow> Return (busy st p),
          snd (listenForChanges w
             (table_set (st\<lparr>nextId := next_number (nextId st),
                             invoked := invoked st @ [(env_ref env, r)]\<rparr>) t r (busy st p))
             p t r (nextId st) path))"
proof (cases "invoke w r env (data_promise st t dr)")
  case (Throws e)
  from resolve_miss_throws [OF this] show ?thesis by (rule throws)
next
  case (Returns v)
  show ?thesis
  proof (cases "isPromiseLike (heap st) v")
    case False
    from resolve_miss_plain [OF Returns False] show ?thesis by (intro plain) simp_all
  next
    case True
    show ?thesis
    proof (cases "then_method w (heap st) v ThenExtractDefault")
      case (Throw x)
      from resolve_miss_then_throws [OF Returns True Throw] show ?thesis by (rule then_throws)
    next
      case (Return p)
      show ?thesis
      proof (cases "joinPaths w (pathname env) (unmatchedPathnamePart env)")
        case (Throws e)
        from resolve_miss_join_throws [OF Returns True Return Throws] show ?thesis
          by (rule join_throws)
      next
        case r2: (Returns path)
        from resolve_miss_listens [OF Returns True Return r2] show ?thesis by (rule listens)
      qed
    qed
  qed
qed

lemma resolve_miss_frame:
  "results (snd (resolve_miss w st env t r dr)) = results st"
  "nextTable (snd (resolve_miss w st env t r dr)) = nextTable st"
  "listenerIds (snd (resolve_miss w st env t r dr)) = listenerIds st"
  "notified (snd (resolve_miss w st env t r dr)) = notified st"
  "heap (snd (resolve_miss w st env t r dr)) = heap st"
  "nextId (snd (resolve_miss w st env t r dr)) = next_number (nextId st)"
  "invoked (snd (resolve_miss w st env t r dr)) = invoked st @ [(env_ref env, r)]"
  by (rule resolve_miss_cases [of w st env t r dr];
      simp add: table_set_def listenForChanges_frame)+

text \<open>The tables after \<open>resolve_miss\<close>: as before, or with one record that is not an error.\<close>

lemma resolve_miss_tables:
  "tables (snd (resolve_miss w st env t r dr)) = tables st \<or>
   (\<exists>res. status res \<noteq> Error \<and> id' res = nextId st \<and>
      tables (snd (resolve_miss w st env t r dr)) = tables (table_set st t r res))"
proof (rule resolve_miss_cases [of w st env t r dr])
  fix e
  assume "resolve_miss w st env t r dr =
         (Throw (Thrown e),
          st\<lparr>nextId := next_number (nextId st), invoked := invoked st @ [(env_ref env, r)]\<rparr>)"
  then show ?thesis by simp
next
  fix res
  assume "status res = Ready" and "id' res = nextId st" and
    "resolve_miss w st env t r dr =
         (Return res,
          table_set (st\<lparr>nextId := next_number (nextId st),
                         invoked := invoked st @ [(env_ref env, r)]\<rparr>) t r res)"
  then have "status res \<noteq> Error \<and> id' res = nextId st \<and>
      tables (snd (resolve_miss w st env t r dr)) = tables (table_set st t r res)"
    by (simp add: table_set_def)
  then show ?thesis by blast
next
  fix x
  assume "resolve_miss w st env t r dr =
         (Throw x,
          st\<lparr>nextId := next_number (nextId st), invoked := invoked st @ [(env_ref env, r)]\<rparr>)"
  then show ?thesis by simp
next
  fix e p
  assume "resolve_miss w st env t r dr =
         (Throw (Thrown e),
          table_set (st\<lparr>nextId := next_number (nextId st),
                         invoked := invoked st @ [(env_ref env, r)]\<rparr>) t r (busy st p))"
  then have "tables (snd (resolve_miss w st env t r dr)) = tables (table_set st t r (busy st p))"
    by (simp add: table_set_def)
  moreover have "status (busy st p) \<noteq> Error" "id' (busy st p) = nextId st"
    by (simp_all add: busy_def)
  ultimately show ?thesis by blast
next
  fix p path
  assume "resolve_miss w st env t r dr =
         (case fst (listenForChanges w
                  (table_set (st\<lparr>nextId := next_number (nextId st),
                                  invoked := invoked st @ [(env_ref env, r)]\<rparr>) t r (busy st p))
                  p t r (nextId st) path) of
            Throw x \<Rightarrow> Throw x
          | Return u \<Rightarrow> Return (busy st p),
          snd (listenForChanges w
             (table_set (st\<lparr>nextId := next_number (nextId st),
                             invoked := invoked st @ [(env_ref env, r)]\<rparr>) t r (busy st p))
             p t r (nextId st) path))"
  then have "tables (snd (resolve_miss w st env t r dr)) = tables (table_set st t r (busy st p))"
    by (simp add: table_set_def listenForChanges_frame)
  moreover have "status (busy st p) \<noteq> Error" "id' (busy st p) = nextId st"
    by (simp_all add: busy_def)
  ultimately show ?thesis by blast
qed

section \<open>The lookup and the memoization invariant\<close>

lemma lookup_SomeD:
  "lookup st env r = Some cur \<Longrightarrow>
   \<exists>t. results st (env_ref env) = Some t \<and> tables st t r = Some cur"
  by (simp add: lookup_def split: option.splits)

lemma lookup_get_table:
  "tables (snd (get_table st env)) (fst (get_table st env)) r = lookup st env r"
  by (simp add: lookup_def get_table_def split: option.splits)

lemma data_promise_get_table:
  "data_promise (snd (get_table st env)) (fst (get_table st env)) dr = data_promise_of st env dr"
  by (simp add: data_promise_def data_promise_of_def lookup_get_table split: option.splits)


lemma lookup_tables:
  "results st' = results st \<Longrightarrow> tables st' = tables st \<Longrightarrow> lookup st' env r = lookup st env r"
  by (simp add: lookup_def split: option.splits)

lemma lookup_table_set:
  "results st (env_ref env) = Some t \<Longrightarrow> lookup (table_set st t r res) env r = Some res"
  by (simp add: lookup_def table_set_def)

lemma resolve_on_miss:
  assumes "lookup st env r = None"
  shows "resolve w st env r dr =
         resolve_miss w (snd (get_table st env)) env (fst (get_table st env)) r dr"
  using assms by (simp add: resolve_unfold lookup_get_table)


















section \<open>Facts about the small program\<close>

lemma ex_heap_objects:
  "obj_at ex_heap 0 = Some \<lparr>cls = PlainObject, props = [''then'' \<mapsto> VRef 1]\<rparr>"
  "obj_at ex_heap (Suc 0) = Some \<lparr>cls = FunctionObject, props = Map.empty\<rparr>"
  "obj_at ex_heap 2 = Some \<lparr>cls = PlainObject, props = [''default'' \<mapsto> VStr ''x'']\<rparr>"
  "obj_at ex_heap 3 = Some \<lparr>cls = NotFoundError, props = Map.empty\<rparr>"
  "obj_at ex_heap 4 = Some \<lparr>cls = NotFoundError, props = [''pathname'' \<mapsto> VStr ''/old'']\<rparr>"
  "obj_at ex_heap 5 = Some \<lparr>cls = PlainObject, props = [''then'' \<mapsto> VNum 1]\<rparr>"
  "obj_at ex_heap 6 = Some \<lparr>cls = PlainObject, props = [''then'' \<mapsto> VRef 1]\<rparr>"
  "obj_at ex_heap 7 = Some \<lparr>cls = PlainObject, props = [''then'' \<mapsto> VRef 1]\<rparr>"
  "obj_at ex_heap 8 = Some \<lparr>cls = PlainObject, props = [''then'' \<mapsto> VRef 1]\<rparr>"
  "obj_at ex_heap 9 = Some \<lparr>cls = PlainObject, props = [''then'' \<mapsto> VRef 1]\<rparr>"
  "obj_at ex_heap 10 = Some \<lparr>cls = PlainObject, props = [''default'' \<mapsto> VRef 0]\<rparr>"
  "obj_at ex_heap 11 = Some \<lparr>cls = NotFoundError, props = [''pathname'' \<mapsto> VStr '''']\<rparr>"
  "length ex_heap = 12"
  by (simp_all add: obj_at_def ex_heap_def)

lemma ex_world_fields:
  "invoke ex_world r env p =
     (if r = 0 then Returns (VNum 42)
      else if r = 1 then Returns (VRef 0)
      else if r = 2 then Throws (VStr ''boom'')
      else if r = 3 then Returns (VRef 5)
      else Returns (VRef 9))"
  "call_then ex_world x args =
     (if x = VRef 0 then Returns (VRef 6)
      else if x = VRef 6 then Returns (VRef 7)
      else if x = VRef 7 then Returns (VRef 8)
      else Returns VUndefined)"
  "follow ex_world x = (if x = VRef 0 then Some (Fulfilled (VNum 5)) else None)"
  "joinPaths ex_world a b = Returns (a @ ''/'' @ b)"
  "listener_body ex_world l = (if l = 0 then [Unlisten 1] else [])"
  "listener_throws ex_world l = False"
  "invoke ex_world_throwing = invoke ex_world"
  "call_then ex_world_throwing = call_then ex_world"
  "follow ex_world_throwing = follow ex_world"
  "joinPaths ex_world_throwing = joinPaths ex_world"
  "listener_body ex_world_throwing = listener_body ex_world"
  "listener_throws ex_world_throwing l = (l = 0)"
  by (simp_all add: ex_world_def ex_world_throwing_def)

lemma ex_then_methods:
  "then_method ex_world ex_heap (VRef 0) args = Return (VRef 6)"
  "then_method ex_world ex_heap (VRef 6) args = Return (VRef 7)"
  "then_method ex_world ex_heap (VRef 7) args = Return (VRef 8)"
  "then_method ex_world ex_heap (VRef 5) args = Throw TypeError"
  "then_method ex_world ex_heap (VRef 9) args = Return VUndefined"
  "then_method ex_world ex_heap VUndefined args = Throw TypeError"
  by (simp_all add: then_method_def ex_world_fields ex_heap_objects)

lemma ex_state_fields:
  "results ex_state = [0 \<mapsto> 0]"
  "tables ex_state 0 0 = Some \<lparr>id' = 1, status = Ready, promise = PromiseResolve (VNum 42),
      error = None, value' = Some (VNum 42)\<rparr>"
  "tables ex_state 0 (Suc 0) = Some \<lparr>id' = 2, status = Busy, promise = Thenable (VRef 6),
      error = None, value' = None\<rparr>"
  "tables ex_state 0 2 = None"
  "tables ex_state 0 3 = None"
  "tables ex_state 0 4 = None"
  "listenerIds ex_state = [(0, [2]), (1, [2]), (2, [1])]"
  "nextId ex_state = 3"
  "nextTable ex_state = 1"
  "heap ex_state = ex_heap"
  "notified ex_state = []"
  "invoked ex_state = [(0, 0), (0, 1)]"
  "pending ex_state = [ex_cont]"
  "notifying ex_state = [2]"
  by (simp_all add: ex_state_def run_def resolve_def get_table_def resolve_miss_def
        new_Resolver_def ex_env_def ex_cont_def data_promise_def next_number_def
        isPromiseLike_def table_set_def listenForChanges_def listen_def Let_def
        ex_then_methods ex_heap_objects ex_world_fields)


section \<open>The staleness guard\<close>

lemma is_current_iff:
  "is_current st c \<longleftrightarrow>
   (\<exists>cur. tables st (c_table c) (c_resolvable c) = Some cur \<and> id' cur = c_id c)"
  by (auto simp: is_current_def split: option.splits)

lemma onFulfilled_didUpdate: "fst (onFulfilled st c v) = is_current st c"
  by (simp add: onFulfilled_def is_current_def split: option.splits)

lemma onRejected_didUpdate: "fst (onRejected st c e) = is_current st c"
  by (simp add: onRejected_def is_current_def Let_def split_beta split: option.splits)

lemma onFulfilled_stale: "\<not> is_current st c \<Longrightarrow> onFulfilled st c v = (False, st)"
  by (auto simp: onFulfilled_def is_current_def split: option.splits)

lemma onRejected_stale:
  "\<not> is_current st c \<Longrightarrow>
   onRejected st c e = (False, st\<lparr>heap := annotate (heap st) e (c_fullPathname c)\<rparr>)"
  by (auto simp: onRejected_def is_current_def Let_def split: option.splits)

lemma complete_stale:
  "\<not> is_current st c \<Longrightarrow>
   complete w st c s =
     (case s of Fulfilled v \<Rightarrow> st
      | Rejected e \<Rightarrow> st\<lparr>heap := annotate (heap st) e (c_fullPathname c)\<rparr>)"
  by (simp add: complete_def onFulfilled_stale onRejected_stale onSettled_def
        split: settlement.splits)

lemma ex_stale_not_current: "\<not> is_current ex_state ex_stale"
  by (simp add: is_current_def ex_stale_def ex_cont_def ex_state_fields)

section \<open>The listener registry\<close>

lemma map_set_keys: "fst ` set (map_set xs k v) = insert k (fst ` set xs)"
  by (induction xs k v rule: map_set.induct) auto

lemma map_set_distinct: "distinct (map fst xs) \<Longrightarrow> distinct (map fst (map_set xs k v))"
proof (induction xs k v rule: map_set.induct)
  case (1 k v)
  then show ?case by simp
next
  case (2 k' v' xs k v)
  then show ?case
    using map_set_keys [of xs k v] by (auto simp: image_iff)
qed

lemma map_set_fresh: "k \<notin> fst ` set xs \<Longrightarrow> map_set xs k v = xs @ [(k, v)]"
  by (induction xs k v rule: map_set.induct) auto

lemma map_set_present: "k \<in> fst ` set xs \<Longrightarrow> map fst (map_set xs k v) = map fst xs"
  by (induction xs k v rule: map_set.induct) auto

lemma map_delete_subset: "set (map_delete xs k) \<subseteq> set xs"
  by (induction xs k rule: map_delete.induct) auto

lemma map_delete_distinct: "distinct (map fst xs) \<Longrightarrow> distinct (map fst (map_delete xs k))"
proof (induction xs k rule: map_delete.induct)
  case (1 k)
  then show ?case by simp
next
  case (2 k' v' xs k)
  then show ?case
    using map_delete_subset [of xs k] by (auto simp: image_iff)
qed

lemma map_delete_gone: "distinct (map fst xs) \<Longrightarrow> k \<notin> fst ` set (map_delete xs k)"
proof (induction xs k rule: map_delete.induct)
  case (1 k)
  then show ?case by simp
next
  case (2 k' v' xs k)
  then show ?case by (auto simp: image_iff)
qed

lemma subscribers_iff:
  "l \<in> set (subscribers reg i) \<longleftrightarrow> (\<exists>ids. (l, ids) \<in> set reg \<and> i \<in> set ids)"
  by (auto simp: subscribers_def image_iff)

lemma subscribers_distinct: "distinct (map fst reg) \<Longrightarrow> distinct (subscribers reg i)"
  unfolding subscribers_def by (rule distinct_map_filter)

lemma subscribers_other_id:
  assumes "distinct (map fst reg)" and "(l, ids) \<in> set reg" and "i \<notin> set ids"
  shows "l \<notin> set (subscribers reg i)"
proof
  assume "l \<in> set (subscribers reg i)"
  then obtain ids' where a: "(l, ids') \<in> set reg" and b: "i \<in> set ids'"
    by (auto simp: subscribers_iff)
  from assms(1) assms(2) a have "ids' = ids"
    by (meson eq_key_imp_eq_value)
  with b assms(3) show False by simp
qed

lemma subscribers_unregistered: "l \<notin> fst ` set reg \<Longrightarrow> l \<notin> set (subscribers reg i)"
  by (auto simp: subscribers_iff image_iff)

lemma listen_registry_ok: "registry_ok st \<Longrightarrow> registry_ok (listen st l ids)"
  by (simp add: registry_ok_def listen_def map_set_distinct)

lemma unlisten_registry_ok: "registry_ok st \<Longrightarrow> registry_ok (unlisten st l)"
  by (simp add: registry_ok_def unlisten_def map_delete_distinct)

lemma reg_ops_registry_ok: "registry_ok st \<Longrightarrow> registry_ok (foldl apply_reg_op st xs)"
proof (induction xs arbitrary: st)
  case Nil
  then show ?case by simp
next
  case (Cons x xs)
  have "registry_ok (apply_reg_op st x)"
    using Cons.prems by (cases x) (simp_all add: listen_registry_ok unlisten_registry_ok)
  then show ?case using Cons.IH by simp
qed

lemma call_listener_registry_ok:
  "registry_ok st \<Longrightarrow> registry_ok (snd (call_listener w st l))"
  unfolding call_listener_def snd_conv
  by (rule reg_ops_registry_ok) (simp add: registry_ok_def)

lemma notify_loop_registry_ok: "registry_ok st \<Longrightarrow> registry_ok (notify_loop w reg i st)"
  by (induction w reg i st rule: notify_loop.induct) (simp_all add: call_listener_registry_ok)

lemma onSettled_registry_ok: "registry_ok st \<Longrightarrow> registry_ok (onSettled w st i b)"
  by (simp add: onSettled_def notify_loop_registry_ok)

lemma resolve_listenerIds: "listenerIds (snd (resolve w st env r dr)) = listenerIds st"
  by (simp add: resolve_unfold resolve_miss_frame get_table_frame split: option.splits)

lemma map_set_lookup:
  "distinct (map fst xs) \<Longrightarrow> (k, v') \<in> set (map_set xs k v) \<longleftrightarrow> v' = v"
proof (induction xs k v rule: map_set.induct)
  case (1 k v)
  then show ?case by auto
next
  case (2 k' v'' xs k v)
  then show ?case by (auto simp: image_iff)
qed

lemma map_set_others:
  "k' \<noteq> k \<Longrightarrow> (k', v') \<in> set (map_set xs k v) \<longleftrightarrow> (k', v') \<in> set xs"
  by (induction xs k v rule: map_set.induct) auto

lemma exec_registry_ok: "registry_ok st \<Longrightarrow> registry_ok (exec w st x)"
proof (cases x)
  case (OpResolve env r dr)
  assume "registry_ok st"
  then show ?thesis by (simp add: OpResolve registry_ok_def resolve_listenerIds)
next
  case (OpSettle c s)
  assume "registry_ok st"
  then show ?thesis
    by (cases s) (simp_all add: OpSettle registry_ok_def onFulfilled_frame onRejected_frame)
next
  case (OpNotify i b)
  assume "registry_ok st"
  then show ?thesis by (simp add: OpNotify onSettled_registry_ok)
next
  case (OpListen l ids)
  assume "registry_ok st"
  then show ?thesis by (simp add: OpListen listen_registry_ok)
next
  case (OpUnlisten l)
  assume "registry_ok st"
  then show ?thesis by (simp add: OpUnlisten unlisten_registry_ok)
qed

lemma run_registry_ok: "registry_ok st \<Longrightarrow> registry_ok (run w st ops)"
  unfolding run_def
  by (induction ops arbitrary: st) (simp_all add: exec_registry_ok)

lemma new_Resolver_registry_ok: "registry_ok (new_Resolver h)"
  by (simp add: registry_ok_def new_Resolver_def)

lemma ex_state_registry_ok: "registry_ok ex_state"
  by (simp add: registry_ok_def ex_state_fields)


lemma reached_first_throw:
  "\<forall>x \<in> set xs. \<not> listener_throws w x \<Longrightarrow> listener_throws w l \<Longrightarrow>
   reached w (xs @ l # ys) = xs @ [l]"
  by (induction xs) simp_all

lemma subscribers_listen:
  assumes "distinct (map fst reg)"
  shows "l \<in> set (subscribers (map_set reg l ids) n) \<longleftrightarrow> n \<in> set ids"
  using map_set_lookup [OF assms, of l _ ids]
  by (auto simp: subscribers_iff)

section \<open>The callbacks when the attempt is current\<close>

lemma hasDefault_iff:
  "hasDefault h v \<longleftrightarrow>
   (\<exists>a ob d. v = VRef a \<and> obj_at h a = Some ob \<and> cls ob \<noteq> FunctionObject \<and>
      props ob ''default'' = Some d)"
  by (cases v) (auto simp: hasDefault_def split: option.splits)

lemma onFulfilled_current:
  "is_current st c \<Longrightarrow>
   onFulfilled st c v =
     (True, table_set st (c_table c) (c_resolvable c)
        \<lparr>id' = c_id c, status = Ready, promise = c_promise c, error = None, value' = Some v\<rparr>)"
  by (auto simp: onFulfilled_def is_current_def split: option.splits)

lemma onRejected_current:
  "is_current st c \<Longrightarrow>
   onRejected st c e =
     (True,
      table_set (snd (error_or_new (st\<lparr>heap := annotate (heap st) e (c_fullPathname c)\<rparr>) e))
        (c_table c) (c_resolvable c)
        \<lparr>id' = c_id c, status = Error, promise = c_promise c,
         error = Some (fst (error_or_new (st\<lparr>heap := annotate (heap st) e (c_fullPathname c)\<rparr>) e)),
         value' = None\<rparr>)"
  by (auto simp: onRejected_def is_current_def Let_def split_beta split: option.splits)

lemma table_set_same: "tables (table_set st t r res) t r = Some res"
  by (simp add: table_set_def)

lemma table_set_frame:
  "heap (table_set st t r res) = heap st"
  "results (table_set st t r res) = results st"
  "listenerIds (table_set st t r res) = listenerIds st"
  "notified (table_set st t r res) = notified st"
  by (simp_all add: table_set_def)

section \<open>Stored errors are truthy\<close>

lemma errors_truthy_tables: "tables st' = tables st \<Longrightarrow> errors_truthy st' = errors_truthy st"
  by (simp add: errors_truthy_def)

lemma errors_truthy_table_set:
  assumes "errors_truthy st"
    and "status res = Error \<longrightarrow> (\<exists>e. error res = Some e \<and> truthy e)"
  shows "errors_truthy (table_set st t r res)"
  using assms unfolding errors_truthy_def table_set_def
  by (auto split: if_splits)

lemma get_table_errors_truthy: "errors_truthy st \<Longrightarrow> errors_truthy (snd (get_table st env))"
  unfolding errors_truthy_def get_table_def
  by (auto split: option.splits if_splits)

lemma resolve_miss_errors_truthy:
  assumes "errors_truthy st"
  shows "errors_truthy (snd (resolve_miss w st env t r dr))"
proof -
  from resolve_miss_tables [of w st env t r dr]
  consider "tables (snd (resolve_miss w st env t r dr)) = tables st"
    | res where "status res \<noteq> Error"
        "tables (snd (resolve_miss w st env t r dr)) = tables (table_set st t r res)"
    by blast
  then show ?thesis
  proof cases
    case 1
    from errors_truthy_tables [OF 1] assms show ?thesis by simp
  next
    case 2
    have "errors_truthy (table_set st t r res)"
      by (rule errors_truthy_table_set [OF assms]) (simp add: 2(1))
    with errors_truthy_tables [OF 2(2)] show ?thesis by simp
  qed
qed

lemma resolve_errors_truthy:
  "errors_truthy st \<Longrightarrow> errors_truthy (snd (resolve w st env r dr))"
  using get_table_errors_truthy [of st env]
    resolve_miss_errors_truthy [of "snd (get_table st env)" w env "fst (get_table st env)" r dr]
  by (simp add: resolve_unfold split: option.splits)

lemma error_or_new_truthy: "truthy (fst (error_or_new st e))"
  by (simp add: error_or_new_def)

lemma error_or_new_tables: "tables (snd (error_or_new st e)) = tables st"
  by (simp add: error_or_new_def)

lemma onFulfilled_errors_truthy:
  assumes "errors_truthy st"
  shows "errors_truthy (snd (onFulfilled st c v))"
proof (cases "is_current st c")
  case True
  have "errors_truthy (table_set st (c_table c) (c_resolvable c)
      \<lparr>id' = c_id c, status = Ready, promise = c_promise c, error = None, value' = Some v\<rparr>)"
    by (rule errors_truthy_table_set [OF assms]) simp
  then show ?thesis by (simp add: onFulfilled_current [OF True])
next
  case False
  with assms show ?thesis by (simp add: onFulfilled_stale)
qed

lemma onRejected_errors_truthy:
  assumes "errors_truthy st"
  shows "errors_truthy (snd (onRejected st c e))"
proof (cases "is_current st c")
  case True
  let ?s1 = "st\<lparr>heap := annotate (heap st) e (c_fullPathname c)\<rparr>"
  have "errors_truthy (snd (error_or_new ?s1 e))"
    using assms errors_truthy_tables [of "snd (error_or_new ?s1 e)" st]
    by (simp add: error_or_new_tables)
  then have "errors_truthy (table_set (snd (error_or_new ?s1 e)) (c_table c) (c_resolvable c)
      \<lparr>id' = c_id c, status = Error, promise = c_promise c,
        error = Some (fst (error_or_new ?s1 e)), value' = None\<rparr>)"
    by (rule errors_truthy_table_set) (simp add: error_or_new_truthy)
  then show ?thesis by (simp add: onRejected_current [OF True])
next
  case False
  with assms errors_truthy_tables [of "st\<lparr>heap := annotate (heap st) e (c_fullPathname c)\<rparr>" st]
  show ?thesis by (simp add: onRejected_stale)
qed

lemma exec_errors_truthy: "errors_truthy st \<Longrightarrow> errors_truthy (exec w st x)"
proof (cases x)
  case (OpResolve env r dr)
  assume "errors_truthy st"
  then show ?thesis by (simp add: OpResolve resolve_errors_truthy)
next
  case (OpSettle c s)
  assume "errors_truthy st"
  then show ?thesis
    by (cases s) (simp_all add: OpSettle onFulfilled_errors_truthy onRejected_errors_truthy)
next
  case (OpNotify i b)
  assume "errors_truthy st"
  then show ?thesis
    using errors_truthy_tables [of "onSettled w st i b" st]
    by (simp add: OpNotify onSettled_frame)
next
  case (OpListen l ids)
  assume "errors_truthy st"
  then show ?thesis
    using errors_truthy_tables [of "listen st l ids" st]
    by (simp add: OpListen listen_def)
next
  case (OpUnlisten l)
  assume "errors_truthy st"
  then show ?thesis
    using errors_truthy_tables [of "unlisten st l" st]
    by (simp add: OpUnlisten unlisten_def)
qed

lemma run_errors_truthy: "errors_truthy st \<Longrightarrow> errors_truthy (run w st ops)"
  unfolding run_def
  by (induction ops arbitrary: st) (simp_all add: exec_errors_truthy)

lemma new_Resolver_errors_truthy: "errors_truthy (new_Resolver h)"
  by (simp add: errors_truthy_def new_Resolver_def)

lemma annotate_falsy: "\<not> truthy e \<Longrightarrow> annotate h e p = h"
  by (cases e) (simp_all add: annotate_def)

section \<open>The annotation of not-found errors\<close>

lemma instanceof_NotFoundError_ref:
  "instanceof_NotFoundError h e \<Longrightarrow> \<exists>a ob. e = VRef a \<and> obj_at h a = Some ob \<and> cls ob = NotFoundError"
  by (cases e) (auto split: option.splits)

lemma annotate_unset:
  "instanceof_NotFoundError h e \<Longrightarrow> \<not> truthy (get_prop h e ''pathname'') \<Longrightarrow>
   annotate h e p = set_prop h e ''pathname'' (VStr p)"
  by (simp add: annotate_def)

lemma annotate_set:
  "truthy (get_prop h e ''pathname'') \<Longrightarrow> annotate h e p = h"
  by (simp add: annotate_def)

lemma annotate_not_instance:
  "\<not> instanceof_NotFoundError h e \<Longrightarrow> annotate h e p = h"
  by (simp add: annotate_def)

lemma get_prop_set_prop:
  assumes "obj_at h a = Some ob"
  shows "get_prop (set_prop h (VRef a) name v) x nm =
         (if x = VRef a \<and> nm = name then v else get_prop h x nm)"
proof (cases x)
  case (VRef b)
  with assms show ?thesis by (simp add: obj_at_set [OF assms])
qed (simp_all)

lemma instanceof_set_prop:
  "instanceof_NotFoundError (set_prop h e name v) x = instanceof_NotFoundError h x"
proof (cases e)
  case (VRef a)
  show ?thesis
  proof (cases "obj_at h a")
    case None
    with VRef show ?thesis by simp
  next
    case (Some ob)
    with VRef show ?thesis by (cases x) (simp_all add: obj_at_set [OF Some])
  qed
qed (simp_all)

lemma set_prop_twice:
  "set_prop (set_prop h e name v) e name v = set_prop h e name v"
proof (cases e)
  case (VRef a)
  show ?thesis
  proof (cases "obj_at h a")
    case None
    with VRef show ?thesis by simp
  next
    case (Some ob)
    with VRef show ?thesis by (simp add: obj_at_set [OF Some])
  qed
qed (simp_all)

lemma annotate_pathname:
  assumes "instanceof_NotFoundError h e" and "\<not> truthy (get_prop h e ''pathname'')"
  shows "get_prop (annotate h e p) e ''pathname'' = VStr p"
proof -
  from instanceof_NotFoundError_ref [OF assms(1)] obtain a ob where
    r: "e = VRef a" "obj_at h a = Some ob" by blast
  from assms have "annotate h e p = set_prop h e ''pathname'' (VStr p)"
    by (rule annotate_unset)
  with r show ?thesis by (simp only: get_prop_set_prop [OF r(2)]) simp
qed

lemma annotate_instance:
  "instanceof_NotFoundError (annotate h e p) x = instanceof_NotFoundError h x"
  by (simp add: annotate_def instanceof_set_prop)

lemma annotate_other:
  assumes "x \<noteq> e \<or> name \<noteq> ''pathname''"
  shows "get_prop (annotate h e p) x name = get_prop h x name"
proof (cases "instanceof_NotFoundError h e \<and> \<not> truthy (get_prop h e ''pathname'')")
  case True
  then obtain a ob where r: "e = VRef a" "obj_at h a = Some ob"
    using instanceof_NotFoundError_ref by blast
  from True have "annotate h e p = set_prop h e ''pathname'' (VStr p)"
    by (simp add: annotate_def)
  with r assms show ?thesis by (auto simp only: get_prop_set_prop [OF r(2)] split: if_splits)
next
  case False
  then show ?thesis by (auto simp: annotate_def)
qed

lemma annotate_idem: "annotate (annotate h e p) e p = annotate h e p"
proof (cases "instanceof_NotFoundError h e \<and> \<not> truthy (get_prop h e ''pathname'')")
  case True
  then have a: "annotate h e p = set_prop h e ''pathname'' (VStr p)"
    by (simp add: annotate_def)
  show ?thesis
    unfolding a
    by (simp add: annotate_def set_prop_twice)
next
  case False
  then show ?thesis by (auto simp: annotate_def)
qed

lemma annotate_once:
  assumes "p \<noteq> []"
  shows "annotate (annotate h e p) e q = annotate h e p"
proof (cases "instanceof_NotFoundError h e \<and> \<not> truthy (get_prop h e ''pathname'')")
  case True
  then have "get_prop (annotate h e p) e ''pathname'' = VStr p"
    by (simp add: annotate_pathname)
  with assms have "truthy (get_prop (annotate h e p) e ''pathname'')" by simp
  then show ?thesis by (rule annotate_set)
next
  case False
  then have "annotate h e p = h" by (auto simp: annotate_def)
  with False show ?thesis by (auto simp: annotate_def)
qed

lemma onRejected_heap:
  "truthy e \<Longrightarrow> heap (snd (onRejected st c e)) = annotate (heap st) e (c_fullPathname c)"
  by (cases "is_current st c")
     (simp_all add: onRejected_current onRejected_stale table_set_frame error_or_new_def)

lemma onRejected_stored_error:
  "is_current st c \<Longrightarrow> truthy e \<Longrightarrow>
   \<exists>res. tables (snd (onRejected st c e)) (c_table c) (c_resolvable c) = Some res \<and>
         error res = Some e"
  by (simp add: onRejected_current table_set_same error_or_new_def)

section \<open>The asynchronous branch of resolve\<close>

lemma busy_get_table: "busy (snd (get_table st env)) p = busy st p"
  by (simp add: busy_def get_table_frame)



text \<open>
  When \<^verbatim>\<open>joinPaths\<close> has returned, what \<^verbatim>\<open>resolve\<close> does is what \<^verbatim>\<open>listenForChanges\<close>
  does in the state \<open>listening\<close>, in which the \<open>Busy\<close> record is stored.
\<close>

lemma resolve_reaches_listen:
  assumes miss: "lookup st env r = None"
    and ret: "invoke w r env (data_promise_of st env dr) = Returns v"
    and shape: "isPromiseLike (heap st) v"
    and thn: "then_method w (heap st) v ThenExtractDefault = Return p"
    and jn: "joinPaths w (pathname env) (unmatchedPathnamePart env) = Returns path"
  shows "\<exists>s2. heap s2 = heap st \<and> pending s2 = pending st \<and> notifying s2 = notifying st \<and>
           lookup s2 env r = Some (busy st p) \<and>
           results s2 (env_ref env) = Some (fst (get_table st env)) \<and>
           tables s2 (fst (get_table st env)) r = Some (busy st p) \<and>
           resolve w st env r dr =
             (case fst (listenForChanges w s2 p (fst (get_table st env)) r (nextId st) path) of
                Throw x \<Rightarrow> Throw x
              | Return u \<Rightarrow> Return (busy st p),
              snd (listenForChanges w s2 p (fst (get_table st env)) r (nextId st) path))"
proof -
  let ?g = "snd (get_table st env)"
  let ?t = "fst (get_table st env)"
  let ?s1 = "?g\<lparr>nextId := next_number (nextId ?g), invoked := invoked ?g @ [(env_ref env, r)]\<rparr>"
  let ?s2 = "table_set ?s1 ?t r (busy st p)"
  have a: "invoke w r env (data_promise ?g ?t dr) = Returns v"
    using ret by (simp add: data_promise_get_table)
  have b: "isPromiseLike (heap ?g) v" using shape by (simp add: get_table_frame)
  have c: "then_method w (heap ?g) v ThenExtractDefault = Return p"
    using thn by (simp add: get_table_frame)
  from resolve_miss_listens [OF a b c jn] resolve_on_miss [OF miss, of w dr]
  have eq: "resolve w st env r dr =
             (case fst (listenForChanges w ?s2 p ?t r (nextId st) path) of
                Throw x \<Rightarrow> Throw x
              | Return u \<Rightarrow> Return (busy st p),
              snd (listenForChanges w ?s2 p ?t r (nextId st) path))"
    by (simp add: busy_get_table get_table_frame split: completion.splits)
  have rs: "results ?s2 (env_ref env) = Some ?t"
    by (simp add: table_set_def get_table_results)
  have "results ?s1 (env_ref env) = Some ?t" by (simp add: get_table_results)
  from lookup_table_set [OF this] have lk: "lookup ?s2 env r = Some (busy st p)" .
  have fr: "heap ?s2 = heap st" "pending ?s2 = pending st" "notifying ?s2 = notifying st"
    "tables ?s2 ?t r = Some (busy st p)"
    by (simp_all add: table_set_def get_table_frame)
  from eq rs lk fr show ?thesis by blast
qed

lemma lookup_listenForChanges:
  "lookup (snd (listenForChanges w st p t r i path)) env r' = lookup st env r'"
  by (rule lookup_tables) (simp_all add: listenForChanges_frame)

lemma resolve_async:
  assumes "goes_async w st env r dr v p path"
  shows "fst (resolve w st env r dr) = Return (busy st p)"
    and "lookup (snd (resolve w st env r dr)) env r = Some (busy st p)"
    and "pending (snd (resolve w st env r dr)) = pending st @ [attempt st env r p path]"
    and "notifying (snd (resolve w st env r dr)) = notifying st @ [nextId st]"
    and "is_current (snd (resolve w st env r dr)) (attempt st env r p path)"
    and "heap (snd (resolve w st env r dr)) = heap st"
    and "listenerIds (snd (resolve w st env r dr)) = listenerIds st"
    and "notified (snd (resolve w st env r dr)) = notified st"
    and "results (snd (resolve w st env r dr)) (env_ref env) = Some (c_table (attempt st env r p path))"
proof -
  from assms obtain q z where
    miss: "lookup st env r = None"
    and ret: "invoke w r env (data_promise_of st env dr) = Returns v"
    and shape: "isPromiseLike (heap st) v"
    and thn: "then_method w (heap st) v ThenExtractDefault = Return p"
    and jn: "joinPaths w (pathname env) (unmatchedPathnamePart env) = Returns path"
    and t2: "then_method w (heap st) p ThenCallbacks = Return q"
    and t3: "then_method w (heap st) q ThenNotify = Return z"
    by (auto simp: goes_async_def)
  from resolve_reaches_listen [OF miss ret shape thn jn] obtain s2 where
    h: "heap s2 = heap st" and pe: "pending s2 = pending st"
    and no: "notifying s2 = notifying st"
    and lk: "lookup s2 env r = Some (busy st p)"
    and rs: "results s2 (env_ref env) = Some (fst (get_table st env))"
    and tb: "tables s2 (fst (get_table st env)) r = Some (busy st p)"
    and eq: "resolve w st env r dr =
             (case fst (listenForChanges w s2 p (fst (get_table st env)) r (nextId st) path) of
                Throw x \<Rightarrow> Throw x
              | Return u \<Rightarrow> Return (busy st p),
              snd (listenForChanges w s2 p (fst (get_table st env)) r (nextId st) path))"
    by blast
  from t2 t3 h have
    "then_method w (heap s2) p ThenCallbacks = Return q"
    "then_method w (heap s2) q ThenNotify = Return z" by simp_all
  note L = listenForChanges_returns [OF this, of "fst (get_table st env)" r "nextId st" path]
  from eq L show "fst (resolve w st env r dr) = Return (busy st p)" by simp
  from eq lk show "lookup (snd (resolve w st env r dr)) env r = Some (busy st p)"
    by (simp add: lookup_listenForChanges)
  from eq L pe show "pending (snd (resolve w st env r dr)) = pending st @ [attempt st env r p path]"
    by (simp add: attempt_def)
  from eq L no show "notifying (snd (resolve w st env r dr)) = notifying st @ [nextId st]"
    by simp
  from eq tb show "is_current (snd (resolve w st env r dr)) (attempt st env r p path)"
    by (simp add: is_current_def attempt_def listenForChanges_frame busy_def)
  from eq h show "heap (snd (resolve w st env r dr)) = heap st"
    by (simp add: listenForChanges_frame)
  show "listenerIds (snd (resolve w st env r dr)) = listenerIds st"
    by (rule resolve_listenerIds)
  show "notified (snd (resolve w st env r dr)) = notified st"
    by (simp add: resolve_on_miss [OF miss] resolve_miss_frame get_table_frame)
  from eq rs show "results (snd (resolve w st env r dr)) (env_ref env) =
      Some (c_table (attempt st env r p path))"
    by (simp add: listenForChanges_frame attempt_def)
qed





lemma complete_rejected_current:
  assumes "is_current st c"
  shows "tables (complete w st c (Rejected e)) (c_table c) (c_resolvable c) =
           Some \<lparr>id' = c_id c, status = Error, promise = c_promise c,
                 error = Some (if truthy e then e else VRef (length (heap st))),
                 value' = None\<rparr>"
    and "results (complete w st c (Rejected e)) = results st"
    and "heap (complete w st c (Rejected e)) =
           (if truthy e then annotate (heap st) e (c_fullPathname c)
            else heap st @ [\<lparr>cls = ErrorObject, props = Map.empty\<rparr>])"
    and "notified (complete w st c (Rejected e)) =
           notified st @ reached w (subscribers (listenerIds st) (c_id c))"
proof -
  let ?s1 = "st\<lparr>heap := annotate (heap st) e (c_fullPathname c)\<rparr>"
  have f: "fst (error_or_new ?s1 e) = (if truthy e then e else VRef (length (heap st)))"
    by (simp add: error_or_new_def annotate_falsy)
  show "tables (complete w st c (Rejected e)) (c_table c) (c_resolvable c) =
           Some \<lparr>id' = c_id c, status = Error, promise = c_promise c,
                 error = Some (if truthy e then e else VRef (length (heap st))),
                 value' = None\<rparr>"
    by (simp only: complete_def settlement.case onRejected_current [OF assms] split_conv Let_def
          onSettled_frame table_set_same f)
  show "results (complete w st c (Rejected e)) = results st"
    by (simp add: complete_def onRejected_current [OF assms] onSettled_frame table_set_frame
          error_or_new_def)
  show "heap (complete w st c (Rejected e)) =
           (if truthy e then annotate (heap st) e (c_fullPathname c)
            else heap st @ [\<lparr>cls = ErrorObject, props = Map.empty\<rparr>])"
    by (simp add: complete_def onRejected_current [OF assms] onSettled_frame table_set_frame
          error_or_new_def annotate_falsy)
  show "notified (complete w st c (Rejected e)) =
           notified st @ reached w (subscribers (listenerIds st) (c_id c))"
    by (simp add: complete_def onRejected_current [OF assms] onSettled_notified table_set_frame
          error_or_new_def)
qed

lemma complete_fulfilled_current:
  assumes "is_current st c"
  shows "tables (complete w st c (Fulfilled v)) (c_table c) (c_resolvable c) =
           Some \<lparr>id' = c_id c, status = Ready, promise = c_promise c, error = None,
                 value' = Some v\<rparr>"
    and "results (complete w st c (Fulfilled v)) = results st"
    and "heap (complete w st c (Fulfilled v)) = heap st"
    and "notified (complete w st c (Fulfilled v)) =
           notified st @ reached w (subscribers (listenerIds st) (c_id c))"
  by (simp_all add: complete_def onFulfilled_current [OF assms] onSettled_frame
        onSettled_notified table_set_same table_set_frame)

lemma settle_rejected: "settle w st c (Rejected e) = complete w st c (Rejected e)"
  by (simp add: settle_def thenExtractDefault_def)

lemma complete_errors_truthy:
  assumes "errors_truthy st"
  shows "errors_truthy (complete w st c s)"
proof (cases s)
  case (Fulfilled v)
  have "tables (complete w st c s) = tables (snd (onFulfilled st c v))"
    by (simp add: complete_def Fulfilled split_beta onSettled_frame)
  from errors_truthy_tables [OF this] onFulfilled_errors_truthy [OF assms] show ?thesis
    by simp
next
  case (Rejected e)
  have "tables (complete w st c s) = tables (snd (onRejected st c e))"
    by (simp add: complete_def Rejected split_beta onSettled_frame)
  from errors_truthy_tables [OF this] onRejected_errors_truthy [OF assms] show ?thesis
    by simp
qed

lemma settle_errors_truthy:
  "errors_truthy st \<Longrightarrow> errors_truthy (settle w st c s)"
  by (simp add: settle_def complete_errors_truthy split: option.splits)

lemma lookup_complete_rejected:
  assumes "goes_async w st env r dr u p path"
  shows "lookup (complete w' (snd (resolve w st env r dr)) (attempt st env r p path) (Rejected e))
           env r =
         Some \<lparr>id' = nextId st, status = Error, promise = Thenable p,
               error = Some (if truthy e then e else VRef (length (heap st))), value' = None\<rparr>"
  using complete_rejected_current(1,2) [OF resolve_async(5) [OF assms], of w' e]
    resolve_async(9) [OF assms] resolve_async(6) [OF assms]
  by (simp add: lookup_def attempt_def)

lemma complete_rejected_heap:
  "truthy e \<Longrightarrow> heap (complete w st c (Rejected e)) = annotate (heap st) e (c_fullPathname c)"
  by (simp add: complete_def split_beta onSettled_frame onRejected_heap)

lemma instanceof_truthy: "instanceof_NotFoundError h e \<Longrightarrow> truthy e"
  by (cases e) simp_all

lemma get_prop_truthy: "truthy (get_prop h e name) \<Longrightarrow> truthy e"
  by (cases e) simp_all

lemma lookup_complete_rejected_error:
  assumes "goes_async w st env r dr u p path" and "truthy e"
  shows "lookup (complete w' (snd (resolve w st env r dr)) (attempt st env r p path) (Rejected e))
           env r =
         Some \<lparr>id' = nextId st, status = Error, promise = Thenable p, error = Some e,
               value' = None\<rparr>"
  using lookup_complete_rejected [OF assms(1), of w' e] assms(2) by simp

section \<open>Memoization\<close>




section \<open>Stale completions\<close>

text \<open>
  C2. Both callbacks of a completion for the attempt with the id \<open>c_id c\<close> report an update
  exactly when the table still holds a record for the resolvable and that record's id is
  \<open>c_id c\<close>. When it does not (the record was removed, or replaced by one with another
  id), the completion leaves every table as it was, so the newer entry is not overwritten,
  and calls no listener; nor does the third callback, in whatever state it runs later.
\<close>

theorem staleness_guard:
  "fst (onFulfilled st c v) = is_current st c \<and>
   fst (onRejected st c e) = is_current st c \<and>
   (is_current st c \<longleftrightarrow>
      (\<exists>cur. tables st (c_table c) (c_resolvable c) = Some cur \<and> id' cur = c_id c)) \<and>
   (\<not> is_current st c \<longrightarrow>
      tables (complete w st c s) = tables st \<and>
      results (complete w st c s) = results st \<and>
      notified (complete w st c s) = notified st \<and>
      listenerIds (complete w st c s) = listenerIds st \<and>
      nextId (complete w st c s) = nextId st \<and>
      onSettled w st2 (c_id c) (fst (onFulfilled st c v)) = st2 \<and>
      onSettled w st2 (c_id c) (fst (onRejected st c e)) = st2)"
proof -
  have a: "fst (onFulfilled st c v) = is_current st c"
    and b: "fst (onRejected st c e) = is_current st c"
    by (simp_all add: onFulfilled_didUpdate onRejected_didUpdate)
  have d: "tables (complete w st c s) = tables st \<and>
      results (complete w st c s) = results st \<and>
      notified (complete w st c s) = notified st \<and>
      listenerIds (complete w st c s) = listenerIds st \<and>
      nextId (complete w st c s) = nextId st \<and>
      onSettled w st2 (c_id c) (fst (onFulfilled st c v)) = st2 \<and>
      onSettled w st2 (c_id c) (fst (onRejected st c e)) = st2"
    if "\<not> is_current st c"
    using that
    by (simp add: a b complete_stale onSettled_def split: settlement.splits)
  from a b d is_current_iff [of st c] show ?thesis by blast
qed

theorem staleness_guard_witness:
  "\<not> is_current ex_state ex_stale \<and>
   fst (onFulfilled ex_state ex_stale (VStr ''late'')) = False \<and>
   tables (complete ex_world ex_state ex_stale (Fulfilled (VStr ''late''))) 0 (Suc 0) =
     Some \<lparr>id' = 2, status = Busy, promise = Thenable (VRef 6),
           error = None, value' = None\<rparr> \<and>
   notified (complete ex_world ex_state ex_stale (Fulfilled (VStr ''late''))) = []"
  using staleness_guard [of ex_state ex_stale "VStr ''late''" VNull ex_world "Fulfilled (VStr ''late'')"
      ex_state]
    ex_stale_not_current
  by (simp add: ex_state_fields)

section \<open>What resolve throws\<close>




section \<open>Listener notification\<close>

text \<open>
  C4, as amended. When the promise of a current attempt with the id \<open>n\<close> settles and the
  update is applied, the third callback calls, in the order of the registry, the listeners
  registered at that moment with a list that contains \<open>n\<close> (\<open>subscribers\<close>), each at most
  once and with no argument, up to and including the first one that throws: the call is
  not guarded, so a listener that throws ends the pass, and the subscribers after it are
  not called. When no subscriber throws, exactly the subscribers are called. A stale
  completion calls nobody. The list is read once, from the registry as it is when the
  pass starts: what the called listeners do to the registry has no part in the result (a
  listener that another one unregisters during the pass is still called in it).
  \<^verbatim>\<open>listen\<close> puts a new listener last and leaves a registered one in its place, with the
  new list of ids in place of the old one, so that the list that counts is the one given
  last. The keys of the registry are distinct in every state that a resolver reaches; so
  a listener registered for other ids only is not called, and a pass that starts after
  \<^verbatim>\<open>unlisten(l)\<close> does not call \<open>l\<close>.
\<close>

theorem listener_fanout:
  "(is_current st c \<longrightarrow>
      notified (complete w st c s) =
        notified st @ reached w (subscribers (listenerIds st) (c_id c))) \<and>
   (\<not> is_current st c \<longrightarrow> notified (complete w st c s) = notified st) \<and>
   notified (onSettled w st n True) = notified st @ reached w (subscribers (listenerIds st) n) \<and>
   notified (onSettled w st n False) = notified st \<and>
   ((\<forall>x \<in> set (subscribers (listenerIds st) n). \<not> listener_throws w x) \<longrightarrow>
      reached w (subscribers (listenerIds st) n) = subscribers (listenerIds st) n) \<and>
   ((\<forall>x \<in> set xs. \<not> listener_throws w x) \<and> listener_throws w l \<longrightarrow>
      reached w (xs @ l # ys) = xs @ [l]) \<and>
   (l \<in> set (subscribers (listenerIds st) n) \<longleftrightarrow>
      (\<exists>ids. (l, ids) \<in> set (listenerIds st) \<and> n \<in> set ids)) \<and>
   (l \<notin> fst ` set (listenerIds st) \<longrightarrow>
      listenerIds (listen st l ids) = listenerIds st @ [(l, ids)]) \<and>
   (l \<in> fst ` set (listenerIds st) \<longrightarrow>
      map fst (listenerIds (listen st l ids)) = map fst (listenerIds st)) \<and>
   registry_ok (run w (new_Resolver h) ops) \<and>
   (registry_ok st \<longrightarrow>
      distinct (reached w (subscribers (listenerIds st) n)) \<and>
      ((l, ids) \<in> set (listenerIds st) \<and> n \<notin> set ids
         \<longrightarrow> l \<notin> set (subscribers (listenerIds st) n)) \<and>
      ((l, ids') \<in> set (listenerIds (listen st l ids)) \<longleftrightarrow> ids' = ids) \<and>
      (l \<in> set (subscribers (listenerIds (listen st l ids)) n) \<longleftrightarrow> n \<in> set ids) \<and>
      notified (onSettled w (unlisten st l) n True) =
        notified st @ reached w (subscribers (listenerIds (unlisten st l)) n) \<and>
      l \<notin> set (subscribers (listenerIds (unlisten st l)) n))"
proof -
  have cur: "notified (complete w st c s) =
        notified st @ reached w (subscribers (listenerIds st) (c_id c))" if "is_current st c"
    using complete_fulfilled_current(4) [OF that] complete_rejected_current(4) [OF that]
    by (cases s) simp_all
  have stale: "notified (complete w st c s) = notified st" if "\<not> is_current st c"
    using that by (simp add: complete_stale split: settlement.splits)
  have a: "notified (onSettled w st n True) =
      notified st @ reached w (subscribers (listenerIds st) n)"
    and b: "notified (onSettled w st n False) = notified st"
    by (simp_all add: onSettled_notified)
  have nt: "reached w (subscribers (listenerIds st) n) = subscribers (listenerIds st) n"
    if "\<forall>x \<in> set (subscribers (listenerIds st) n). \<not> listener_throws w x"
    using that by (rule reached_no_throw)
  have ft: "reached w (xs @ l # ys) = xs @ [l]"
    if "\<forall>x \<in> set xs. \<not> listener_throws w x" "listener_throws w l"
    using that by (rule reached_first_throw)
  have reg: "registry_ok (run w (new_Resolver h) ops)"
    by (rule run_registry_ok) (rule new_Resolver_registry_ok)
  have d: "l \<notin> fst ` set (listenerIds st) \<longrightarrow>
      listenerIds (listen st l ids) = listenerIds st @ [(l, ids)]"
    by (simp add: listen_def map_set_fresh)
  have e: "l \<in> fst ` set (listenerIds st) \<longrightarrow>
      map fst (listenerIds (listen st l ids)) = map fst (listenerIds st)"
    by (simp add: listen_def map_set_present)
  have f: "distinct (reached w (subscribers (listenerIds st) n)) \<and>
      ((l, ids) \<in> set (listenerIds st) \<and> n \<notin> set ids
         \<longrightarrow> l \<notin> set (subscribers (listenerIds st) n)) \<and>
      ((l, ids') \<in> set (listenerIds (listen st l ids)) \<longleftrightarrow> ids' = ids) \<and>
      (l \<in> set (subscribers (listenerIds (listen st l ids)) n) \<longleftrightarrow> n \<in> set ids) \<and>
      notified (onSettled w (unlisten st l) n True) =
        notified st @ reached w (subscribers (listenerIds (unlisten st l)) n) \<and>
      l \<notin> set (subscribers (listenerIds (unlisten st l)) n)" if ok: "registry_ok st"
  proof -
    from ok have dk: "distinct (map fst (listenerIds st))" by (simp add: registry_ok_def)
    have "l \<notin> fst ` set (listenerIds (unlisten st l))"
      using map_delete_gone [OF dk, of l] by (simp add: unlisten_def)
    then have u: "l \<notin> set (subscribers (listenerIds (unlisten st l)) n)"
      by (rule subscribers_unregistered)
    have v: "notified (onSettled w (unlisten st l) n True) =
        notified st @ reached w (subscribers (listenerIds (unlisten st l)) n)"
      by (simp add: onSettled_notified unlisten_def)
    have p: "(l, ids') \<in> set (listenerIds (listen st l ids)) \<longleftrightarrow> ids' = ids"
      using map_set_lookup [OF dk, of l ids' ids] by (simp add: listen_def)
    have q: "l \<in> set (subscribers (listenerIds (listen st l ids)) n) \<longleftrightarrow> n \<in> set ids"
      using subscribers_listen [OF dk, of l ids n] by (simp add: listen_def)
    have r: "distinct (reached w (subscribers (listenerIds st) n))"
      by (rule reached_distinct) (rule subscribers_distinct [OF dk])
    from u v p q r subscribers_other_id [OF dk, of l ids n] show ?thesis by blast
  qed
  from cur stale a b nt ft reg d e f subscribers_iff [of l "listenerIds st" n]
  show ?thesis by blast
qed

text \<open>
  C4 as stated fails: when listener 0 throws, the completion of the attempt with the id
  2 calls listener 0 only, although the list of listener 1 contains 2.
\<close>

theorem listener_throws_counterexample:
  "is_current ex_state ex_cont \<and> c_id ex_cont = 2 \<and>
   listenerIds ex_state = [(0, [2]), (1, [2]), (2, [1])] \<and>
   notified ex_state = [] \<and>
   notified (complete ex_world_throwing ex_state ex_cont (Fulfilled (VStr ''x''))) = [0]"
proof -
  have cur: "is_current ex_state ex_cont"
    by (simp add: is_current_def ex_cont_def ex_state_fields)
  from complete_fulfilled_current(4) [OF cur, of ex_world_throwing "VStr ''x''"]
  have "notified (complete ex_world_throwing ex_state ex_cont (Fulfilled (VStr ''x''))) = [0]"
    by (simp add: subscribers_def ex_state_fields ex_cont_def ex_world_fields)
  with cur show ?thesis by (simp add: ex_cont_def ex_state_fields)
qed

theorem listener_fanout_witness:
  "is_current ex_state ex_cont \<and>
   registry_ok ex_state \<and>
   (2, [1]) \<in> set (listenerIds ex_state) \<and>
   notified (complete ex_world ex_state ex_cont (Fulfilled (VStr ''x''))) = [0, 1] \<and>
   notified (complete ex_world_throwing ex_state ex_cont (Fulfilled (VStr ''x''))) = [0] \<and>
   \<not> is_current ex_state ex_stale \<and>
   notified (complete ex_world ex_state ex_stale (Fulfilled (VStr ''x''))) = [] \<and>
   2 \<notin> set (subscribers (listenerIds ex_state) 2) \<and>
   listenerIds (listen ex_state 3 [2]) = [(0, [2]), (1, [2]), (2, [1]), (3, [2])] \<and>
   (2, [2]) \<in> set (listenerIds (listen ex_state 2 [2])) \<and>
   notified (onSettled ex_world (unlisten ex_state 0) 2 True) = [1]"
proof -
  have cur: "is_current ex_state ex_cont"
    by (simp add: is_current_def ex_cont_def ex_state_fields)
  have a: "registry_ok ex_state" by (rule ex_state_registry_ok)
  have b: "(2, [1]) \<in> set (listenerIds ex_state) \<and> 2 \<notin> set [1::nat]"
    by (simp add: ex_state_fields)
  have c: "3 \<notin> fst ` set (listenerIds ex_state)"
    by (simp add: ex_state_fields)
  from listener_fanout [where w = ex_world and st = ex_state and c = ex_cont
      and s = "Fulfilled (VStr ''x'')" and n = 2 and l = 2 and ids = "[1]"] cur a b
  have r1: "notified (complete ex_world ex_state ex_cont (Fulfilled (VStr ''x''))) = [0, 1]"
    "2 \<notin> set (subscribers (listenerIds ex_state) 2)"
    by (simp_all add: subscribers_def ex_state_fields ex_cont_def ex_world_fields)
  from listener_fanout [where w = ex_world_throwing and st = ex_state and c = ex_cont
      and s = "Fulfilled (VStr ''x'')"] cur
  have r2: "notified (complete ex_world_throwing ex_state ex_cont (Fulfilled (VStr ''x''))) = [0]"
    by (simp add: subscribers_def ex_state_fields ex_cont_def ex_world_fields)
  from listener_fanout [where w = ex_world and st = ex_state and c = ex_stale
      and s = "Fulfilled (VStr ''x'')"] ex_stale_not_current
  have r3: "notified (complete ex_world ex_state ex_stale (Fulfilled (VStr ''x''))) = []"
    by (simp add: ex_state_fields)
  from listener_fanout [where st = ex_state and l = 3 and ids = "[2]"] c
  have r4: "listenerIds (listen ex_state 3 [2]) = [(0, [2]), (1, [2]), (2, [1]), (3, [2])]"
    by (simp add: ex_state_fields)
  from listener_fanout [where st = ex_state and l = 2 and ids = "[2]" and ids' = "[2]"] a
  have r5: "(2, [2]) \<in> set (listenerIds (listen ex_state 2 [2]))"
    by simp
  from listener_fanout [where w = ex_world and st = ex_state and n = 2 and l = 0] a
  have r6: "notified (onSettled ex_world (unlisten ex_state 0) 2 True) = [1]"
    by (simp add: subscribers_def unlisten_def ex_state_fields ex_world_fields)
  from cur a b r1 r2 ex_stale_not_current r3 r4 r5 r6 show ?thesis by blast
qed

section \<open>The status algebra\<close>

text \<open>
  C5. \<^verbatim>\<open>reduceStatuses(x, y)\<close> is \<open>Error\<close> if either operand is \<open>Error\<close>, otherwise \<open>Busy\<close>
  if either operand is \<open>Busy\<close>, otherwise \<open>Ready\<close>; the three values the specification
  lists; the operation is commutative and associative.
\<close>

theorem reduceStatuses_algebra:
  "(x = Error \<or> y = Error \<longrightarrow> reduceStatuses x y = Error) \<and>
   (x \<noteq> Error \<and> y \<noteq> Error \<and> (x = Busy \<or> y = Busy) \<longrightarrow> reduceStatuses x y = Busy) \<and>
   (x \<noteq> Error \<and> y \<noteq> Error \<and> x \<noteq> Busy \<and> y \<noteq> Busy \<longrightarrow> reduceStatuses x y = Ready) \<and>
   reduceStatuses Ready Busy = Busy \<and>
   reduceStatuses Busy Error = Error \<and>
   reduceStatuses Ready Ready = Ready \<and>
   reduceStatuses x y = reduceStatuses y x \<and>
   reduceStatuses (reduceStatuses x y) z = reduceStatuses x (reduceStatuses y z)"
  by (cases x; cases y; cases z) simp_all

theorem reduceStatuses_algebra_witness:
  "reduceStatuses Busy Error = Error \<and> reduceStatuses Error Busy = Error \<and>
   reduceStatuses Busy Ready = Busy \<and> reduceStatuses Ready Ready = Ready \<and>
   reduceStatuses (reduceStatuses Ready Busy) Ready = reduceStatuses Ready (reduceStatuses Busy Ready)"
  using reduceStatuses_algebra [of Busy Error Ready] reduceStatuses_algebra [of Busy Ready Ready]
    reduceStatuses_algebra [of Ready Ready Ready] reduceStatuses_algebra [of Ready Busy Ready]
  by simp

section \<open>Synchronous resolution\<close>

text \<open>
  C6. When the cache holds nothing for the resolvable and its invocation returns a value
  that is not promise-shaped, \<^verbatim>\<open>resolve\<close> returns at once a Resolution with the status
  \<open>Ready\<close>, that value, the promise \<^verbatim>\<open>Promise.resolve(value)\<close> and the id that was next; the
  Resolution is stored in the table (the next call returns it), and no callback is
  registered.
\<close>

theorem resolve_synchronous:
  assumes miss: "lookup st env r = None"
    and ret: "invoke w r env (data_promise_of st env dr) = Returns v"
    and plain: "\<not> isPromiseLike (heap st) v"
  shows "\<exists>st'. resolve w st env r dr =
           (Return \<lparr>id' = nextId st, status = Ready, promise = PromiseResolve v,
                    error = None, value' = Some v\<rparr>, st') \<and>
         lookup st' env r =
           Some \<lparr>id' = nextId st, status = Ready, promise = PromiseResolve v,
                 error = None, value' = Some v\<rparr> \<and>
         pending st' = pending st \<and>
         invoked st' = invoked st @ [(env_ref env, r)] \<and>
         resolve w st' env r dr' =
           (Return \<lparr>id' = nextId st, status = Ready, promise = PromiseResolve v,
                    error = None, value' = Some v\<rparr>, st')"
proof -
  let ?g = "snd (get_table st env)"
  let ?t = "fst (get_table st env)"
  let ?res = "\<lparr>id' = nextId st, status = Ready, promise = PromiseResolve v,
                 error = None, value' = Some v\<rparr>"
  let ?st' = "table_set (?g\<lparr>nextId := next_number (nextId ?g),
                 invoked := invoked ?g @ [(env_ref env, r)]\<rparr>) ?t r ?res"
  have a: "invoke w r env (data_promise ?g ?t dr) = Returns v"
    using ret by (simp add: data_promise_get_table)
  have b: "\<not> isPromiseLike (heap ?g) v"
    using plain by (simp add: get_table_frame)
  have r1: "resolve w st env r dr = (Return ?res, ?st')"
    using resolve_on_miss [OF miss, of w dr] resolve_miss_plain [OF a b]
    by (simp add: get_table_frame)
  have "results (?g\<lparr>nextId := next_number (nextId ?g),
          invoked := invoked ?g @ [(env_ref env, r)]\<rparr>) (env_ref env) = Some ?t"
    by (simp add: get_table_results)
  then have r2: "lookup ?st' env r = Some ?res"
    by (rule lookup_table_set)
  have r3: "pending ?st' = pending st"
    by (simp add: table_set_def get_table_frame)
  have r4: "invoked ?st' = invoked st @ [(env_ref env, r)]"
    by (simp add: table_set_def get_table_frame)
  have r5: "resolve w ?st' env r dr' = (Return ?res, ?st')"
    using lookup_SomeD [OF r2] by (auto simp: resolve_def get_table_def)
  from r1 r2 r3 r4 r5 show ?thesis by blast
qed


theorem resolve_synchronous_witness:
  "lookup ex_state (ex_env\<lparr>env_ref := 1\<rparr>) 0 = None \<and>
   invoke ex_world 0 (ex_env\<lparr>env_ref := 1\<rparr>)
     (data_promise_of ex_state (ex_env\<lparr>env_ref := 1\<rparr>) None) = Returns (VNum 42) \<and>
   \<not> isPromiseLike (heap ex_state) (VNum 42) \<and>
   fst (resolve ex_world ex_state (ex_env\<lparr>env_ref := 1\<rparr>) 0 None) =
     Return \<lparr>id' = 3, status = Ready, promise = PromiseResolve (VNum 42),
             error = None, value' = Some (VNum 42)\<rparr>"
proof -
  have a: "lookup ex_state (ex_env\<lparr>env_ref := 1\<rparr>) 0 = None"
    by (simp add: lookup_def ex_state_fields)
  have b: "invoke ex_world 0 (ex_env\<lparr>env_ref := 1\<rparr>)
     (data_promise_of ex_state (ex_env\<lparr>env_ref := 1\<rparr>) None) = Returns (VNum 42)"
    by (simp add: ex_world_fields)
  have c: "\<not> isPromiseLike (heap ex_state) (VNum 42)"
    by (simp add: isPromiseLike_def)
  from resolve_synchronous [OF a b c, of None]
  have "fst (resolve ex_world ex_state (ex_env\<lparr>env_ref := 1\<rparr>) 0 None) =
     Return \<lparr>id' = 3, status = Ready, promise = PromiseResolve (VNum 42),
             error = None, value' = Some (VNum 42)\<rparr>"
    by (auto simp: ex_state_fields)
  with a b c show ?thesis by blast
qed

section \<open>Default unwrapping\<close>

text \<open>
  C7, as amended. \<^verbatim>\<open>extractDefault\<close> maps an object (not a function) that has a
  \<^verbatim>\<open>default\<close> property to the value of that property, and every other value to itself:
  \<^verbatim>\<open>null\<close>, \<^verbatim>\<open>undefined\<close>, booleans, numbers, strings, objects without the property. The
  promise \<^verbatim>\<open>maybeValue.then(extractDefault)\<close> is resolved with what \<open>extractDefault\<close>
  returns. When that is not a thenable, it is the value that the completion of a current
  attempt stores; in particular it is what is stored, with the status \<open>Ready\<close>, for the
  attempt that \<^verbatim>\<open>resolve\<close> has just registered. When it is a thenable (the \<^verbatim>\<open>default\<close> of a
  module may be a promise), the promise follows it: what is stored is the value that the
  thenable is fulfilled with, or an \<open>Error\<close> record when it is rejected, and nothing as
  long as it is pending.
\<close>

theorem default_unwrapping:
  "(obj_at h a = Some ob \<and> cls ob \<noteq> FunctionObject \<and> props ob ''default'' = Some d
      \<longrightarrow> extractDefault h (VRef a) = d) \<and>
   (\<not> (\<exists>a ob d. v = VRef a \<and> obj_at h a = Some ob \<and> cls ob \<noteq> FunctionObject \<and>
          props ob ''default'' = Some d)
      \<longrightarrow> extractDefault h v = v) \<and>
   extractDefault h VNull = VNull \<and>
   extractDefault h VUndefined = VUndefined \<and>
   extractDefault h (VBool b) = VBool b \<and>
   extractDefault h (VNum i) = VNum i \<and>
   extractDefault h (VStr s) = VStr s \<and>
   (is_current st c \<longrightarrow>
      (\<not> callable (heap st) (get_prop (heap st) (extractDefault (heap st) v) ''then'') \<longrightarrow>
         tables (settle w st c (Fulfilled v)) (c_table c) (c_resolvable c) =
         Some \<lparr>id' = c_id c, status = Ready, promise = c_promise c, error = None,
               value' = Some (extractDefault (heap st) v)\<rparr>) \<and>
      (callable (heap st) (get_prop (heap st) (extractDefault (heap st) v) ''then'') \<longrightarrow>
         (follow w (extractDefault (heap st) v) = Some (Fulfilled y) \<longrightarrow>
            tables (settle w st c (Fulfilled v)) (c_table c) (c_resolvable c) =
            Some \<lparr>id' = c_id c, status = Ready, promise = c_promise c, error = None,
                  value' = Some y\<rparr>) \<and>
         (follow w (extractDefault (heap st) v) = Some (Rejected e) \<longrightarrow>
            tables (settle w st c (Fulfilled v)) (c_table c) (c_resolvable c) =
            Some \<lparr>id' = c_id c, status = Error, promise = c_promise c,
                  error = Some (if truthy e then e else VRef (length (heap st))),
                  value' = None\<rparr>) \<and>
         (follow w (extractDefault (heap st) v) = None \<longrightarrow>
            settle w st c (Fulfilled v) = st))) \<and>
   (goes_async w st env r dr u p path \<and>
    \<not> callable (heap st) (get_prop (heap st) (extractDefault (heap st) v) ''then'') \<longrightarrow>
      attempt st env r p path \<in> set (pending (snd (resolve w st env r dr))) \<and>
      lookup (settle w (snd (resolve w st env r dr)) (attempt st env r p path) (Fulfilled v))
        env r =
      Some \<lparr>id' = nextId st, status = Ready, promise = Thenable p, error = None,
            value' = Some (extractDefault (heap st) v)\<rparr>)"
proof -
  have a: "obj_at h a = Some ob \<and> cls ob \<noteq> FunctionObject \<and> props ob ''default'' = Some d
      \<longrightarrow> extractDefault h (VRef a) = d"
    by (simp add: extractDefault_def hasDefault_def)
  have b: "\<not> (\<exists>a ob d. v = VRef a \<and> obj_at h a = Some ob \<and> cls ob \<noteq> FunctionObject \<and>
          props ob ''default'' = Some d) \<longrightarrow> extractDefault h v = v"
    unfolding extractDefault_def hasDefault_iff by auto
  have c: "extractDefault h VNull = VNull" "extractDefault h VUndefined = VUndefined"
    "extractDefault h (VBool b) = VBool b" "extractDefault h (VNum i) = VNum i"
    "extractDefault h (VStr s) = VStr s"
    by (simp_all add: extractDefault_def hasDefault_def)
  have d1: "tables (settle w st c (Fulfilled v)) (c_table c) (c_resolvable c) =
         Some \<lparr>id' = c_id c, status = Ready, promise = c_promise c, error = None,
               value' = Some (extractDefault (heap st) v)\<rparr>"
    if "is_current st c"
      "\<not> callable (heap st) (get_prop (heap st) (extractDefault (heap st) v) ''then'')"
    using that complete_fulfilled_current(1) [OF that(1)]
    by (simp add: settle_def thenExtractDefault_def)
  have d2: "tables (settle w st c (Fulfilled v)) (c_table c) (c_resolvable c) =
            Some \<lparr>id' = c_id c, status = Ready, promise = c_promise c, error = None,
                  value' = Some y\<rparr>"
    if "is_current st c"
      "callable (heap st) (get_prop (heap st) (extractDefault (heap st) v) ''then'')"
      "follow w (extractDefault (heap st) v) = Some (Fulfilled y)"
    using that complete_fulfilled_current(1) [OF that(1)]
    by (simp add: settle_def thenExtractDefault_def)
  have d3: "tables (settle w st c (Fulfilled v)) (c_table c) (c_resolvable c) =
            Some \<lparr>id' = c_id c, status = Error, promise = c_promise c,
                  error = Some (if truthy e then e else VRef (length (heap st))),
                  value' = None\<rparr>"
    if "is_current st c"
      "callable (heap st) (get_prop (heap st) (extractDefault (heap st) v) ''then'')"
      "follow w (extractDefault (heap st) v) = Some (Rejected e)"
    using that complete_rejected_current(1) [OF that(1), of w e]
    by (simp add: settle_def thenExtractDefault_def)
  have d4: "settle w st c (Fulfilled v) = st"
    if "callable (heap st) (get_prop (heap st) (extractDefault (heap st) v) ''then'')"
      "follow w (extractDefault (heap st) v) = None"
    using that by (simp add: settle_def thenExtractDefault_def)
  have e: "attempt st env r p path \<in> set (pending (snd (resolve w st env r dr))) \<and>
      lookup (settle w (snd (resolve w st env r dr)) (attempt st env r p path) (Fulfilled v))
        env r =
      Some \<lparr>id' = nextId st, status = Ready, promise = Thenable p, error = None,
            value' = Some (extractDefault (heap st) v)\<rparr>"
    if g: "goes_async w st env r dr u p path"
      and n: "\<not> callable (heap st) (get_prop (heap st) (extractDefault (heap st) v) ''then'')"
  proof -
    let ?s = "snd (resolve w st env r dr)"
    let ?c = "attempt st env r p path"
    note cur = resolve_async(5) [OF g]
    have hp: "heap ?s = heap st" by (rule resolve_async(6) [OF g])
    from n hp have "settle w ?s ?c (Fulfilled v) =
        complete w ?s ?c (Fulfilled (extractDefault (heap st) v))"
      by (simp add: settle_def thenExtractDefault_def)
    with complete_fulfilled_current(1,2) [OF cur, of w "extractDefault (heap st) v"]
      resolve_async(9) [OF g]
    have "lookup (settle w ?s ?c (Fulfilled v)) env r =
      Some \<lparr>id' = nextId st, status = Ready, promise = Thenable p, error = None,
            value' = Some (extractDefault (heap st) v)\<rparr>"
      by (simp add: lookup_def attempt_def)
    with resolve_async(3) [OF g] show ?thesis by simp
  qed
  from a b c d1 d2 d3 d4 e show ?thesis by blast
qed

text \<open>
  C7 as stated fails: the wrapper at the address 10 has the \<^verbatim>\<open>default\<close> \<open>VRef 0\<close>, a
  promise that is fulfilled with 5; what is stored is 5, not the value of the property.
\<close>

theorem default_thenable_counterexample:
  "get_prop ex_heap (VRef 10) ''default'' = VRef 0 \<and>
   heap ex_state = ex_heap \<and>
   is_current ex_state ex_cont \<and>
   tables (settle ex_world ex_state ex_cont (Fulfilled (VRef 10))) 0 (Suc 0) =
     Some \<lparr>id' = 2, status = Ready, promise = Thenable (VRef 6), error = None,
           value' = Some (VNum 5)\<rparr>"
proof -
  have cur: "is_current ex_state ex_cont"
    by (simp add: is_current_def ex_cont_def ex_state_fields)
  have x: "extractDefault ex_heap (VRef 10) = VRef 0"
    by (simp add: extractDefault_def hasDefault_def ex_heap_objects)
  have "settle ex_world ex_state ex_cont (Fulfilled (VRef 10)) =
        complete ex_world ex_state ex_cont (Fulfilled (VNum 5))"
    by (simp add: settle_def thenExtractDefault_def ex_state_fields x ex_heap_objects
          ex_world_fields)
  with complete_fulfilled_current(1) [OF cur, of ex_world "VNum 5"] cur show ?thesis
    by (simp add: ex_cont_def ex_heap_objects ex_state_fields)
qed

theorem default_unwrapping_witness:
  "is_current ex_state ex_cont \<and>
   extractDefault ex_heap (VRef 2) = VStr ''x'' \<and>
   extractDefault ex_heap (VRef 3) = VRef 3 \<and>
   \<not> callable (heap ex_state) (get_prop (heap ex_state) (extractDefault (heap ex_state) (VRef 2)) ''then'') \<and>
   tables (settle ex_world ex_state ex_cont (Fulfilled (VRef 2))) 0 (Suc 0) =
     Some \<lparr>id' = 2, status = Ready, promise = Thenable (VRef 6), error = None,
           value' = Some (VStr ''x'')\<rparr> \<and>
   callable (heap ex_state) (get_prop (heap ex_state) (extractDefault (heap ex_state) (VRef 10)) ''then'') \<and>
   follow ex_world (extractDefault (heap ex_state) (VRef 10)) = Some (Fulfilled (VNum 5)) \<and>
   tables (settle ex_world ex_state ex_cont (Fulfilled (VRef 10))) 0 (Suc 0) =
     Some \<lparr>id' = 2, status = Ready, promise = Thenable (VRef 6), error = None,
           value' = Some (VNum 5)\<rparr> \<and>
   goes_async ex_world (new_Resolver ex_heap) ex_env 1 None (VRef 0) (VRef 6) ''/a/b'' \<and>
   lookup (settle ex_world (snd (resolve ex_world (new_Resolver ex_heap) ex_env 1 None))
             (attempt (new_Resolver ex_heap) ex_env 1 (VRef 6) ''/a/b'') (Fulfilled (VRef 2)))
     ex_env 1 =
     Some \<lparr>id' = 1, status = Ready, promise = Thenable (VRef 6), error = None,
           value' = Some (VStr ''x'')\<rparr>"
proof -
  have cur: "is_current ex_state ex_cont"
    by (simp add: is_current_def ex_cont_def ex_state_fields)
  have o2: "obj_at ex_heap 2 = Some \<lparr>cls = PlainObject, props = [''default'' \<mapsto> VStr ''x'']\<rparr> \<and>
     cls \<lparr>cls = PlainObject, props = [''default'' \<mapsto> VStr ''x'']\<rparr> \<noteq> FunctionObject \<and>
     props \<lparr>cls = PlainObject, props = [''default'' \<mapsto> VStr ''x'']\<rparr> ''default'' = Some (VStr ''x'')"
    by (simp add: ex_heap_objects)
  have o3: "\<not> (\<exists>a ob d. VRef 3 = VRef a \<and> obj_at ex_heap a = Some ob \<and> cls ob \<noteq> FunctionObject \<and>
          props ob ''default'' = Some d)"
    by (simp add: ex_heap_objects)
  from default_unwrapping [where h = ex_heap and a = 2
      and ob = "\<lparr>cls = PlainObject, props = [''default'' \<mapsto> VStr ''x'']\<rparr>"
      and d = "VStr ''x''" and v = "VRef 3"] o2 o3
  have x: "extractDefault ex_heap (VRef 2) = VStr ''x''" "extractDefault ex_heap (VRef 3) = VRef 3"
    by blast+
  have x10: "extractDefault ex_heap (VRef 10) = VRef 0"
    by (simp add: extractDefault_def hasDefault_def ex_heap_objects)
  have n2: "\<not> callable (heap ex_state)
      (get_prop (heap ex_state) (extractDefault (heap ex_state) (VRef 2)) ''then'')"
    by (simp add: ex_state_fields x)
  have c10: "callable (heap ex_state)
      (get_prop (heap ex_state) (extractDefault (heap ex_state) (VRef 10)) ''then'')"
    and f10: "follow ex_world (extractDefault (heap ex_state) (VRef 10)) = Some (Fulfilled (VNum 5))"
    by (simp_all add: ex_state_fields x10 ex_heap_objects ex_world_fields)
  from default_unwrapping [where st = ex_state and c = ex_cont and v = "VRef 2" and w = ex_world]
    cur n2
  have s2: "tables (settle ex_world ex_state ex_cont (Fulfilled (VRef 2))) 0 (Suc 0) =
     Some \<lparr>id' = 2, status = Ready, promise = Thenable (VRef 6), error = None,
           value' = Some (VStr ''x'')\<rparr>"
    by (simp add: ex_cont_def ex_state_fields x)
  from default_unwrapping [where st = ex_state and c = ex_cont and v = "VRef 10" and w = ex_world
      and y = "VNum 5"] cur c10 f10
  have s10: "tables (settle ex_world ex_state ex_cont (Fulfilled (VRef 10))) 0 (Suc 0) =
     Some \<lparr>id' = 2, status = Ready, promise = Thenable (VRef 6), error = None,
           value' = Some (VNum 5)\<rparr>"
    by (simp add: ex_cont_def)
  have g: "goes_async ex_world (new_Resolver ex_heap) ex_env 1 None (VRef 0) (VRef 6) ''/a/b''"
    by (simp add: goes_async_def lookup_def new_Resolver_def ex_world_fields ex_env_def
          isPromiseLike_def ex_heap_objects ex_then_methods)
  have n2': "\<not> callable (heap (new_Resolver ex_heap))
      (get_prop (heap (new_Resolver ex_heap)) (extractDefault (heap (new_Resolver ex_heap)) (VRef 2))
         ''then'')"
    by (simp add: new_Resolver_def x)
  from default_unwrapping [where st = "new_Resolver ex_heap" and w = ex_world and env = ex_env
      and r = 1 and dr = None and u = "VRef 0" and p = "VRef 6" and path = "''/a/b''"
      and v = "VRef 2"] g n2'
  have sr: "lookup (settle ex_world (snd (resolve ex_world (new_Resolver ex_heap) ex_env 1 None))
             (attempt (new_Resolver ex_heap) ex_env 1 (VRef 6) ''/a/b'') (Fulfilled (VRef 2)))
     ex_env 1 =
     Some \<lparr>id' = 1, status = Ready, promise = Thenable (VRef 6), error = None,
           value' = Some (VStr ''x'')\<rparr>"
    by (simp add: new_Resolver_def x)
  from cur x n2 s2 c10 f10 s10 g sr show ?thesis by blast
qed

section \<open>A rejection is stored as an Error record\<close>

text \<open>
  C8. When the promise of a current attempt rejects with \<open>e\<close>, the completion (the second
  callback of \<^verbatim>\<open>promise.then\<close>, then the notification) leaves in the table, for the
  resolvable, a Resolution with the id of the attempt, the status \<open>Error\<close>, the promise of
  the attempt and the error \<open>e\<close>; when \<open>e\<close> is falsy the error is a new \<^verbatim>\<open>Error\<close> object
  instead, at an address that held no object before, and every other object is as it was.
  The stored error is truthy. A rejection of the value that the resolvable returned
  reaches the completion unchanged through \<^verbatim>\<open>then(extractDefault)\<close>, so this is what is
  stored for the attempt that \<^verbatim>\<open>resolve\<close> has just registered. In every state reachable
  from a new resolver, and after every completion from there, each stored Resolution with
  the status \<open>Error\<close> has a truthy error.
\<close>

theorem rejection_stored:
  "(is_current st c \<longrightarrow>
      tables (complete w st c (Rejected e)) (c_table c) (c_resolvable c) =
        Some \<lparr>id' = c_id c, status = Error, promise = c_promise c,
              error = Some (if truthy e then e else VRef (length (heap st))),
              value' = None\<rparr> \<and>
      truthy (if truthy e then e else VRef (length (heap st))) \<and>
      (\<not> truthy e \<longrightarrow>
         obj_at (heap st) (length (heap st)) = None \<and>
         obj_at (heap (complete w st c (Rejected e))) (length (heap st)) =
           Some \<lparr>cls = ErrorObject, props = Map.empty\<rparr> \<and>
         (\<forall>a. a \<noteq> length (heap st) \<longrightarrow>
              obj_at (heap (complete w st c (Rejected e))) a = obj_at (heap st) a)) \<and>
      (truthy e \<longrightarrow>
         length (heap (complete w st c (Rejected e))) = length (heap st))) \<and>
   settle w st c (Rejected e) = complete w st c (Rejected e) \<and>
   (goes_async w st env r dr u p path \<longrightarrow>
      lookup (settle w (snd (resolve w st env r dr)) (attempt st env r p path) (Rejected e))
        env r =
      Some \<lparr>id' = nextId st, status = Error, promise = Thenable p,
            error = Some (if truthy e then e else VRef (length (heap st))),
            value' = None\<rparr>) \<and>
   errors_truthy (run w (new_Resolver h) ops) \<and>
   errors_truthy (settle w (run w (new_Resolver h) ops) c s)"
proof -
  have a: "tables (complete w st c (Rejected e)) (c_table c) (c_resolvable c) =
        Some \<lparr>id' = c_id c, status = Error, promise = c_promise c,
              error = Some (if truthy e then e else VRef (length (heap st))),
              value' = None\<rparr>" if "is_current st c"
    by (rule complete_rejected_current(1) [OF that])
  have b: "truthy (if truthy e then e else VRef (length (heap st)))"
    by simp
  have c1: "obj_at (heap st) (length (heap st)) = None"
    by (rule obj_at_length)
  have c2: "obj_at (heap (complete w st c (Rejected e))) (length (heap st)) =
           Some \<lparr>cls = ErrorObject, props = Map.empty\<rparr>"
    if "is_current st c" "\<not> truthy e"
    using that(2) by (simp add: complete_rejected_current(3) [OF that(1)] obj_at_append)
  have c3: "\<forall>a. a \<noteq> length (heap st) \<longrightarrow>
              obj_at (heap (complete w st c (Rejected e))) a = obj_at (heap st) a"
    if "is_current st c" "\<not> truthy e"
    using that(2) by (simp add: complete_rejected_current(3) [OF that(1)] obj_at_append)
  have d: "length (heap (complete w st c (Rejected e))) = length (heap st)"
    if "is_current st c" "truthy e"
  proof -
    have "length (annotate (heap st) e (c_fullPathname c)) = length (heap st)"
      by (cases e) (simp_all add: annotate_def split: option.splits)
    with that(2) show ?thesis
      by (simp add: complete_rejected_current(3) [OF that(1)])
  qed
  have e: "settle w st c (Rejected e) = complete w st c (Rejected e)"
    by (rule settle_rejected)
  have f: "lookup (settle w (snd (resolve w st env r dr)) (attempt st env r p path) (Rejected e))
        env r =
      Some \<lparr>id' = nextId st, status = Error, promise = Thenable p,
            error = Some (if truthy e then e else VRef (length (heap st))),
            value' = None\<rparr>" if "goes_async w st env r dr u p path"
    by (simp only: settle_rejected lookup_complete_rejected [OF that])
  have g: "errors_truthy (run w (new_Resolver h) ops)"
    by (rule run_errors_truthy [OF new_Resolver_errors_truthy])
  have h: "errors_truthy (settle w (run w (new_Resolver h) ops) c s)"
    by (rule settle_errors_truthy [OF g])
  from a b c1 c2 c3 d e f g h show ?thesis by blast
qed

theorem rejection_stored_witness:
  "is_current ex_state ex_cont \<and>
   \<not> truthy VUndefined \<and>
   obj_at ex_heap 12 = None \<and>
   tables (complete ex_world ex_state ex_cont (Rejected VUndefined)) 0 (Suc 0) =
     Some \<lparr>id' = 2, status = Error, promise = Thenable (VRef 6), error = Some (VRef 12),
           value' = None\<rparr> \<and>
   obj_at (heap (complete ex_world ex_state ex_cont (Rejected VUndefined))) 12 =
     Some \<lparr>cls = ErrorObject, props = Map.empty\<rparr> \<and>
   obj_at (heap (complete ex_world ex_state ex_cont (Rejected VUndefined))) 3 =
     obj_at ex_heap 3 \<and>
   tables (complete ex_world ex_state ex_cont (Rejected (VStr ''no''))) 0 (Suc 0) =
     Some \<lparr>id' = 2, status = Error, promise = Thenable (VRef 6), error = Some (VStr ''no''),
           value' = None\<rparr> \<and>
   length (heap (complete ex_world ex_state ex_cont (Rejected (VStr ''no'')))) = 12 \<and>
   goes_async ex_world (new_Resolver ex_heap) ex_env 1 None (VRef 0) (VRef 6) ''/a/b'' \<and>
   lookup (settle ex_world (snd (resolve ex_world (new_Resolver ex_heap) ex_env 1 None))
             (attempt (new_Resolver ex_heap) ex_env 1 (VRef 6) ''/a/b'') (Rejected VNull))
     ex_env 1 =
     Some \<lparr>id' = 1, status = Error, promise = Thenable (VRef 6), error = Some (VRef 12),
           value' = None\<rparr> \<and>
   errors_truthy ex_state"
proof -
  have cur: "is_current ex_state ex_cont"
    by (simp add: is_current_def ex_cont_def ex_state_fields)
  have g: "goes_async ex_world (new_Resolver ex_heap) ex_env 1 None (VRef 0) (VRef 6) ''/a/b''"
    by (simp add: goes_async_def lookup_def new_Resolver_def ex_world_fields ex_env_def
          isPromiseLike_def ex_heap_objects ex_then_methods)
  from rejection_stored [where st = ex_state and c = ex_cont and e = VUndefined and w = ex_world]
    cur
  have u: "obj_at ex_heap 12 = None"
    "tables (complete ex_world ex_state ex_cont (Rejected VUndefined)) 0 (Suc 0) =
     Some \<lparr>id' = 2, status = Error, promise = Thenable (VRef 6), error = Some (VRef 12),
           value' = None\<rparr>"
    "obj_at (heap (complete ex_world ex_state ex_cont (Rejected VUndefined))) 12 =
     Some \<lparr>cls = ErrorObject, props = Map.empty\<rparr>"
    "obj_at (heap (complete ex_world ex_state ex_cont (Rejected VUndefined))) 3 =
     obj_at ex_heap 3"
    by (simp_all add: ex_cont_def ex_state_fields ex_heap_objects)
  from rejection_stored [where st = ex_state and c = ex_cont and e = "VStr ''no''"
      and w = ex_world] cur
  have s: "tables (complete ex_world ex_state ex_cont (Rejected (VStr ''no''))) 0 (Suc 0) =
     Some \<lparr>id' = 2, status = Error, promise = Thenable (VRef 6), error = Some (VStr ''no''),
           value' = None\<rparr>"
    "length (heap (complete ex_world ex_state ex_cont (Rejected (VStr ''no'')))) = 12"
    by (simp_all add: ex_cont_def ex_state_fields ex_heap_objects)
  from rejection_stored [where st = "new_Resolver ex_heap" and w = ex_world and env = ex_env
      and r = 1 and dr = None and u = "VRef 0" and p = "VRef 6" and path = "''/a/b''"
      and e = VNull] g
  have l: "lookup (settle ex_world (snd (resolve ex_world (new_Resolver ex_heap) ex_env 1 None))
             (attempt (new_Resolver ex_heap) ex_env 1 (VRef 6) ''/a/b'') (Rejected VNull))
     ex_env 1 =
     Some \<lparr>id' = 1, status = Error, promise = Thenable (VRef 6), error = Some (VRef 12),
           value' = None\<rparr>"
    by (simp add: new_Resolver_def ex_heap_objects)
  from rejection_stored [where w = ex_world and h = ex_heap
      and ops = "[OpResolve ex_env 0 None, OpResolve ex_env 1 None, OpListen 0 [2],
                  OpListen 1 [2], OpListen 2 [1]]"]
  have t: "errors_truthy ex_state"
    by (simp add: ex_state_def)
  from cur u s g l t show ?thesis by simp
qed

section \<open>The annotation of a not-found error\<close>

text \<open>
  C9, as amended. \<^verbatim>\<open>resolve\<close> registers the asynchronous attempt with the full path that
  \<^verbatim>\<open>joinPaths(env.pathname, env.unmatchedPathnamePart)\<close> returns. When the promise of an
  attempt rejects with a \<^verbatim>\<open>NotFoundError\<close> whose \<^verbatim>\<open>pathname\<close> is falsy (missing, or set to
  a falsy value such as the empty string), the completion sets \<^verbatim>\<open>pathname\<close> on that very
  object to the full path of the attempt, and for a current attempt the stored error is
  that object; so a rejection of the attempt that \<^verbatim>\<open>resolve\<close> has just registered gives the
  error the joined path. When the \<^verbatim>\<open>pathname\<close> is truthy, or the error is no
  \<^verbatim>\<open>NotFoundError\<close>, the completion changes no object. No other property and no other
  object changes. A second rejection with the same error changes nothing more when the
  full path of the first was not empty, or when both attempts have the same full path.
\<close>

theorem notfound_annotation:
  "(goes_async w st env r dr u p path \<longrightarrow>
      joinPaths w (pathname env) (unmatchedPathnamePart env) = Returns path \<and>
      pending (snd (resolve w st env r dr)) \<noteq> [] \<and>
      last (pending (snd (resolve w st env r dr))) = attempt st env r p path \<and>
      c_fullPathname (last (pending (snd (resolve w st env r dr)))) = path \<and>
      (instanceof_NotFoundError (heap st) e \<and> \<not> truthy (get_prop (heap st) e ''pathname'') \<longrightarrow>
         get_prop
           (heap (settle w (snd (resolve w st env r dr))
                    (last (pending (snd (resolve w st env r dr)))) (Rejected e)))
           e ''pathname'' = VStr path \<and>
         lookup (settle w (snd (resolve w st env r dr))
                    (last (pending (snd (resolve w st env r dr)))) (Rejected e)) env r =
         Some \<lparr>id' = nextId st, status = Error, promise = Thenable p, error = Some e,
               value' = None\<rparr>)) \<and>
   (instanceof_NotFoundError (heap st) e \<and> \<not> truthy (get_prop (heap st) e ''pathname'') \<longrightarrow>
      heap (complete w st c (Rejected e)) =
        set_prop (heap st) e ''pathname'' (VStr (c_fullPathname c)) \<and>
      get_prop (heap (complete w st c (Rejected e))) e ''pathname'' = VStr (c_fullPathname c) \<and>
      instanceof_NotFoundError (heap (complete w st c (Rejected e))) e \<and>
      (is_current st c \<longrightarrow>
         tables (complete w st c (Rejected e)) (c_table c) (c_resolvable c) =
         Some \<lparr>id' = c_id c, status = Error, promise = c_promise c, error = Some e,
               value' = None\<rparr>)) \<and>
   (truthy (get_prop (heap st) e ''pathname'') \<longrightarrow>
      heap (complete w st c (Rejected e)) = heap st) \<and>
   (truthy e \<and> \<not> instanceof_NotFoundError (heap st) e \<longrightarrow>
      heap (complete w st c (Rejected e)) = heap st) \<and>
   (truthy e \<and> (x \<noteq> e \<or> name \<noteq> ''pathname'') \<longrightarrow>
      get_prop (heap (complete w st c (Rejected e))) x name = get_prop (heap st) x name) \<and>
   (truthy e \<and> (c_fullPathname c \<noteq> [] \<or> c_fullPathname c' = c_fullPathname c) \<longrightarrow>
      heap (complete w (complete w st c (Rejected e)) c' (Rejected e)) =
      heap (complete w st c (Rejected e)))"
proof -
  have a: "joinPaths w (pathname env) (unmatchedPathnamePart env) = Returns path \<and>
      pending (snd (resolve w st env r dr)) \<noteq> [] \<and>
      last (pending (snd (resolve w st env r dr))) = attempt st env r p path \<and>
      c_fullPathname (last (pending (snd (resolve w st env r dr)))) = path"
    if g: "goes_async w st env r dr u p path"
    using g resolve_async(3) [OF g] by (simp add: goes_async_def attempt_def)
  have b: "get_prop
           (heap (settle w (snd (resolve w st env r dr))
                    (last (pending (snd (resolve w st env r dr)))) (Rejected e)))
           e ''pathname'' = VStr path \<and>
         lookup (settle w (snd (resolve w st env r dr))
                    (last (pending (snd (resolve w st env r dr)))) (Rejected e)) env r =
         Some \<lparr>id' = nextId st, status = Error, promise = Thenable p, error = Some e,
               value' = None\<rparr>"
    if g: "goes_async w st env r dr u p path"
      and nf: "instanceof_NotFoundError (heap st) e"
      and unset: "\<not> truthy (get_prop (heap st) e ''pathname'')"
  proof -
    let ?s = "snd (resolve w st env r dr)"
    have l: "last (pending ?s) = attempt st env r p path"
      using resolve_async(3) [OF g] by simp
    have t: "truthy e" by (rule instanceof_truthy [OF nf])
    have hp: "heap ?s = heap st" by (rule resolve_async(6) [OF g])
    have "heap (complete w ?s (attempt st env r p path) (Rejected e)) =
          annotate (heap st) e path"
      using complete_rejected_heap [OF t, of w ?s "attempt st env r p path"] hp
      by (simp add: attempt_def)
    with annotate_pathname [OF nf unset, of path]
      lookup_complete_rejected_error [OF g t, of w]
    show ?thesis by (simp add: l settle_rejected)
  qed
  have c: "heap (complete w st c (Rejected e)) =
        set_prop (heap st) e ''pathname'' (VStr (c_fullPathname c)) \<and>
      get_prop (heap (complete w st c (Rejected e))) e ''pathname'' = VStr (c_fullPathname c) \<and>
      instanceof_NotFoundError (heap (complete w st c (Rejected e))) e \<and>
      (is_current st c \<longrightarrow>
         tables (complete w st c (Rejected e)) (c_table c) (c_resolvable c) =
         Some \<lparr>id' = c_id c, status = Error, promise = c_promise c, error = Some e,
               value' = None\<rparr>)"
    if nf: "instanceof_NotFoundError (heap st) e"
      and unset: "\<not> truthy (get_prop (heap st) e ''pathname'')"
  proof -
    have t: "truthy e" by (rule instanceof_truthy [OF nf])
    note h = complete_rejected_heap [OF t, of w st c]
    have s: "tables (complete w st c (Rejected e)) (c_table c) (c_resolvable c) =
         Some \<lparr>id' = c_id c, status = Error, promise = c_promise c, error = Some e,
               value' = None\<rparr>" if "is_current st c"
      using complete_rejected_current(1) [OF that, of w e] t by simp
    from h s annotate_unset [OF nf unset, of "c_fullPathname c"]
      annotate_pathname [OF nf unset, of "c_fullPathname c"]
      annotate_instance [of "heap st" e "c_fullPathname c" e] nf
    show ?thesis by simp
  qed
  have d: "heap (complete w st c (Rejected e)) = heap st"
    if "truthy (get_prop (heap st) e ''pathname'')"
    using complete_rejected_heap [OF get_prop_truthy [OF that], of w st c]
      annotate_set [OF that] by simp
  have e: "heap (complete w st c (Rejected e)) = heap st"
    if "truthy e" "\<not> instanceof_NotFoundError (heap st) e"
    using complete_rejected_heap [OF that(1), of w st c] annotate_not_instance [OF that(2)]
    by simp
  have f: "get_prop (heap (complete w st c (Rejected e))) x name = get_prop (heap st) x name"
    if "truthy e" "x \<noteq> e \<or> name \<noteq> ''pathname''"
    using complete_rejected_heap [OF that(1), of w st c] annotate_other [OF that(2)]
    by simp
  have g: "heap (complete w (complete w st c (Rejected e)) c' (Rejected e)) =
      heap (complete w st c (Rejected e))"
    if t: "truthy e" and o: "c_fullPathname c \<noteq> [] \<or> c_fullPathname c' = c_fullPathname c"
  proof -
    have "annotate (annotate (heap st) e (c_fullPathname c)) e (c_fullPathname c') =
          annotate (heap st) e (c_fullPathname c)"
    proof (cases "c_fullPathname c \<noteq> []")
      case True
      then show ?thesis by (rule annotate_once)
    next
      case False
      with o have "c_fullPathname c' = c_fullPathname c" by simp
      then show ?thesis by (simp add: annotate_idem)
    qed
    then show ?thesis
      by (simp add: complete_rejected_heap [OF t])
  qed
  from a b c d e f g show ?thesis by blast
qed

text \<open>
  C9 as stated fails for a \<^verbatim>\<open>pathname\<close> that is set to a falsy value: the error at the
  address 11 has the \<^verbatim>\<open>pathname\<close> \<^verbatim>\<open>''\<close>, and the completion overwrites it with the full path.
\<close>

theorem empty_pathname_counterexample:
  "instanceof_NotFoundError (heap ex_state) (VRef 11) \<and>
   has_prop (heap ex_state) (VRef 11) ''pathname'' \<and>
   get_prop (heap ex_state) (VRef 11) ''pathname'' = VStr [] \<and>
   get_prop (heap (complete ex_world ex_state ex_cont (Rejected (VRef 11)))) (VRef 11)
     ''pathname'' = VStr ''/a/b''"
proof -
  have nf: "instanceof_NotFoundError (heap ex_state) (VRef 11)"
    and hp: "has_prop (heap ex_state) (VRef 11) ''pathname''"
    and gp: "get_prop (heap ex_state) (VRef 11) ''pathname'' = VStr []"
    by (simp_all add: ex_state_fields ex_heap_objects)
  have "heap (complete ex_world ex_state ex_cont (Rejected (VRef 11))) =
        annotate (heap ex_state) (VRef 11) ''/a/b''"
    using complete_rejected_heap [of "VRef 11" ex_world ex_state ex_cont]
    by (simp add: ex_cont_def)
  with annotate_pathname [OF nf, of "''/a/b''"] gp nf hp show ?thesis by simp
qed

theorem notfound_annotation_witness:
  "goes_async ex_world (new_Resolver ex_heap) ex_env 1 None (VRef 0) (VRef 6) ''/a/b'' \<and>
   joinPaths ex_world (pathname ex_env) (unmatchedPathnamePart ex_env) = Returns ''/a/b'' \<and>
   c_fullPathname (last (pending (snd (resolve ex_world (new_Resolver ex_heap) ex_env 1 None)))) =
     ''/a/b'' \<and>
   instanceof_NotFoundError ex_heap (VRef 3) \<and>
   \<not> truthy (get_prop ex_heap (VRef 3) ''pathname'') \<and>
   get_prop
     (heap (settle ex_world (snd (resolve ex_world (new_Resolver ex_heap) ex_env 1 None))
              (last (pending (snd (resolve ex_world (new_Resolver ex_heap) ex_env 1 None))))
              (Rejected (VRef 3))))
     (VRef 3) ''pathname'' = VStr ''/a/b'' \<and>
   lookup (settle ex_world (snd (resolve ex_world (new_Resolver ex_heap) ex_env 1 None))
              (last (pending (snd (resolve ex_world (new_Resolver ex_heap) ex_env 1 None))))
              (Rejected (VRef 3))) ex_env 1 =
     Some \<lparr>id' = 1, status = Error, promise = Thenable (VRef 6), error = Some (VRef 3),
           value' = None\<rparr> \<and>
   is_current ex_state ex_cont \<and>
   tables (complete ex_world ex_state ex_cont (Rejected (VRef 3))) 0 (Suc 0) =
     Some \<lparr>id' = 2, status = Error, promise = Thenable (VRef 6), error = Some (VRef 3),
           value' = None\<rparr> \<and>
   truthy (get_prop (heap ex_state) (VRef 4) ''pathname'') \<and>
   heap (complete ex_world ex_state ex_cont (Rejected (VRef 4))) = ex_heap \<and>
   truthy (VStr ''no'') \<and> \<not> instanceof_NotFoundError (heap ex_state) (VStr ''no'') \<and>
   heap (complete ex_world ex_state ex_cont (Rejected (VStr ''no''))) = ex_heap \<and>
   get_prop (heap (complete ex_world ex_state ex_cont (Rejected (VRef 3)))) (VRef 4) ''pathname'' =
     VStr ''/old'' \<and>
   heap (complete ex_world (complete ex_world ex_state ex_cont (Rejected (VRef 3))) ex_stale
           (Rejected (VRef 3))) =
     heap (complete ex_world ex_state ex_cont (Rejected (VRef 3)))"
proof -
  have g: "goes_async ex_world (new_Resolver ex_heap) ex_env 1 None (VRef 0) (VRef 6) ''/a/b''"
    by (simp add: goes_async_def lookup_def new_Resolver_def ex_world_fields ex_env_def
          isPromiseLike_def ex_heap_objects ex_then_methods)
  have cur: "is_current ex_state ex_cont"
    by (simp add: is_current_def ex_cont_def ex_state_fields)
  have nf: "instanceof_NotFoundError ex_heap (VRef 3)"
    and unset: "\<not> truthy (get_prop ex_heap (VRef 3) ''pathname'')"
    and t4: "truthy (get_prop (heap ex_state) (VRef 4) ''pathname'')"
    and ns: "\<not> instanceof_NotFoundError (heap ex_state) (VStr ''no'')"
    by (simp_all add: ex_heap_objects ex_state_fields)
  have nr: "heap (new_Resolver ex_heap) = ex_heap" "nextId (new_Resolver ex_heap) = 1"
    by (simp_all add: new_Resolver_def)
  from notfound_annotation [where w = ex_world and st = "new_Resolver ex_heap" and env = ex_env
      and r = 1 and dr = None and u = "VRef 0" and p = "VRef 6" and path = "''/a/b''"
      and e = "VRef 3" and c = ex_cont and c' = ex_cont and x = "VRef 3" and name = "''''"]
    g nf unset
  have r1: "joinPaths ex_world (pathname ex_env) (unmatchedPathnamePart ex_env) = Returns ''/a/b''"
    "c_fullPathname (last (pending (snd (resolve ex_world (new_Resolver ex_heap) ex_env 1 None)))) =
     ''/a/b''"
    "get_prop
     (heap (settle ex_world (snd (resolve ex_world (new_Resolver ex_heap) ex_env 1 None))
              (last (pending (snd (resolve ex_world (new_Resolver ex_heap) ex_env 1 None))))
              (Rejected (VRef 3))))
     (VRef 3) ''pathname'' = VStr ''/a/b''"
    "lookup (settle ex_world (snd (resolve ex_world (new_Resolver ex_heap) ex_env 1 None))
              (last (pending (snd (resolve ex_world (new_Resolver ex_heap) ex_env 1 None))))
              (Rejected (VRef 3))) ex_env 1 =
     Some \<lparr>id' = 1, status = Error, promise = Thenable (VRef 6), error = Some (VRef 3),
           value' = None\<rparr>"
    by (auto simp add: nr simp del: get_prop.simps instanceof_NotFoundError.simps)
  have nf': "instanceof_NotFoundError (heap ex_state) (VRef 3) \<and>
             \<not> truthy (get_prop (heap ex_state) (VRef 3) ''pathname'')"
    and tv: "truthy (VRef 3)"
    and ne: "VRef 4 \<noteq> VRef 3 \<or> ''pathname'' \<noteq> ''pathname''"
    and np: "c_fullPathname ex_cont \<noteq> [] \<or> c_fullPathname ex_stale = c_fullPathname ex_cont"
    by (simp_all add: ex_heap_objects ex_state_fields ex_cont_def)
  note i2 = notfound_annotation [where w = ex_world and st = ex_state and c = ex_cont
      and e = "VRef 3" and x = "VRef 4" and name = "''pathname''" and c' = ex_stale
      and env = ex_env and r = 0 and dr = None and u = VNull and p = VNull and path = "[]"]
  from i2 nf' cur tv ne np
  have r2a: "tables (complete ex_world ex_state ex_cont (Rejected (VRef 3)))
       (c_table ex_cont) (c_resolvable ex_cont) =
     Some \<lparr>id' = c_id ex_cont, status = Error, promise = c_promise ex_cont,
           error = Some (VRef 3), value' = None\<rparr>"
    and r2b: "get_prop (heap (complete ex_world ex_state ex_cont (Rejected (VRef 3)))) (VRef 4)
       ''pathname'' = get_prop (heap ex_state) (VRef 4) ''pathname''"
    and r2c: "heap (complete ex_world (complete ex_world ex_state ex_cont (Rejected (VRef 3)))
           ex_stale (Rejected (VRef 3))) =
     heap (complete ex_world ex_state ex_cont (Rejected (VRef 3)))"
    by blast+
  have r2: "tables (complete ex_world ex_state ex_cont (Rejected (VRef 3))) 0 (Suc 0) =
     Some \<lparr>id' = 2, status = Error, promise = Thenable (VRef 6), error = Some (VRef 3),
           value' = None\<rparr>"
    "get_prop (heap (complete ex_world ex_state ex_cont (Rejected (VRef 3)))) (VRef 4) ''pathname'' =
     VStr ''/old''"
    using r2a r2b by (simp_all add: ex_cont_def ex_state_fields ex_heap_objects)
  note i3 = notfound_annotation [where w = ex_world and st = ex_state and c = ex_cont
      and e = "VRef 4" and x = "VRef 4" and name = "''pathname''" and c' = ex_stale
      and env = ex_env and r = 0 and dr = None and u = VNull and p = VNull and path = "[]"]
  from i3 t4
  have "heap (complete ex_world ex_state ex_cont (Rejected (VRef 4))) = heap ex_state"
    by blast
  then have r3: "heap (complete ex_world ex_state ex_cont (Rejected (VRef 4))) = ex_heap"
    by (simp add: ex_state_fields)
  have ts: "truthy (VStr ''no'')" by simp
  note i4 = notfound_annotation [where w = ex_world and st = ex_state and c = ex_cont
      and e = "VStr ''no''" and x = "VRef 4" and name = "''pathname''" and c' = ex_stale
      and env = ex_env and r = 0 and dr = None and u = VNull and p = VNull and path = "[]"]
  from i4 ns ts
  have "heap (complete ex_world ex_state ex_cont (Rejected (VStr ''no''))) = heap ex_state"
    by blast
  then have r4: "heap (complete ex_world ex_state ex_cont (Rejected (VStr ''no''))) = ex_heap"
    by (simp add: ex_state_fields)
  from g cur nf unset t4 ns r1 r2 r2c r3 r4 show ?thesis by simp
qed

section \<open>A stale rejection still annotates\<close>

text \<open>
  C10. When the promise of an attempt that is no longer current rejects with a
  \<^verbatim>\<open>NotFoundError\<close> whose \<^verbatim>\<open>pathname\<close> is not set, the completion stores nothing and
  calls no listener, and yet the error object has its \<^verbatim>\<open>pathname\<close> set to the full path:
  the assignment comes before the test of the id.
\<close>

theorem stale_rejection_annotates:
  assumes stale: "\<not> is_current st c"
    and nf: "instanceof_NotFoundError (heap st) e"
    and unset: "\<not> truthy (get_prop (heap st) e ''pathname'')"
  shows "onRejected st c e =
           (False, st\<lparr>heap := set_prop (heap st) e ''pathname'' (VStr (c_fullPathname c))\<rparr>) \<and>
         get_prop (heap (complete w st c (Rejected e))) e ''pathname'' = VStr (c_fullPathname c) \<and>
         tables (complete w st c (Rejected e)) = tables st \<and>
         notified (complete w st c (Rejected e)) = notified st \<and>
         (c_fullPathname c \<noteq> [] \<longrightarrow> heap (complete w st c (Rejected e)) \<noteq> heap st)"
proof -
  let ?h = "set_prop (heap st) e ''pathname'' (VStr (c_fullPathname c))"
  have an: "annotate (heap st) e (c_fullPathname c) = ?h"
    by (rule annotate_unset [OF nf unset])
  have a: "onRejected st c e = (False, st\<lparr>heap := ?h\<rparr>)"
    using onRejected_stale [OF stale, of e] an by simp
  have cm: "complete w st c (Rejected e) = st\<lparr>heap := ?h\<rparr>"
    using complete_stale [OF stale, of w "Rejected e"] an by simp
  have g: "get_prop ?h e ''pathname'' = VStr (c_fullPathname c)"
    using annotate_pathname [OF nf unset, of "c_fullPathname c"] an by simp
  have d: "?h \<noteq> heap st" if "c_fullPathname c \<noteq> []"
  proof
    assume "?h = heap st"
    with g have "get_prop (heap st) e ''pathname'' = VStr (c_fullPathname c)" by simp
    with unset that show False by simp
  qed
  from a cm g d show ?thesis by simp
qed

theorem stale_rejection_annotates_witness:
  "\<not> is_current ex_state ex_stale \<and>
   instanceof_NotFoundError (heap ex_state) (VRef 3) \<and>
   \<not> truthy (get_prop (heap ex_state) (VRef 3) ''pathname'') \<and>
   fst (onRejected ex_state ex_stale (VRef 3)) = False \<and>
   get_prop (heap ex_state) (VRef 3) ''pathname'' = VUndefined \<and>
   get_prop (heap (complete ex_world ex_state ex_stale (Rejected (VRef 3)))) (VRef 3) ''pathname'' =
     VStr ''/a/b'' \<and>
   tables (complete ex_world ex_state ex_stale (Rejected (VRef 3))) = tables ex_state \<and>
   notified (complete ex_world ex_state ex_stale (Rejected (VRef 3))) = []"
proof -
  have a: "instanceof_NotFoundError (heap ex_state) (VRef 3)"
    and b: "\<not> truthy (get_prop (heap ex_state) (VRef 3) ''pathname'')"
    and c: "get_prop (heap ex_state) (VRef 3) ''pathname'' = VUndefined"
    by (simp_all add: ex_state_fields ex_heap_objects)
  from stale_rejection_annotates [OF ex_stale_not_current a b, of ex_world]
  have "fst (onRejected ex_state ex_stale (VRef 3)) = False \<and>
   get_prop (heap (complete ex_world ex_state ex_stale (Rejected (VRef 3)))) (VRef 3) ''pathname'' =
     VStr ''/a/b'' \<and>
   tables (complete ex_world ex_state ex_stale (Rejected (VRef 3))) = tables ex_state \<and>
   notified (complete ex_world ex_state ex_stale (Rejected (VRef 3))) = []"
    by (simp add: ex_stale_def ex_cont_def ex_state_fields)
  with ex_stale_not_current a b c show ?thesis by blast
qed

end
